theory Spec2Isabelle
  imports Main "HOL-Library.Word" "HOL-Library.AList" "HOL-Library.Multiset"
  "HOL-Library.List_Lexorder" "HOL-Library.Char_ord"
begin

unbundle bit_operations_syntax

section \<open>Machine integers\<close>

text \<open>Go's \<open>uint64\<close>: arithmetic wraps modulo \<open>2 ^ 64\<close>, comparison is unsigned.\<close>

type_synonym u64 = "64 word"

section \<open>Reward halving (internal/consensus/pow/reward.go)\<close>

record RewardDistributor =
  baseReward :: u64
  halving :: u64
  minReward :: u64

text \<open>
  The loop of \<open>CalculateBlockReward\<close>:
  \<^verbatim>\<open>for i := uint64(0); i < halvings && reward > d.minReward; i++ { reward /= 2 }\<close>
  as a function of the loop variables \<open>i\<close> and \<open>reward\<close>.
\<close>

function halving_loop :: "u64 \<Rightarrow> u64 \<Rightarrow> u64 \<Rightarrow> u64 \<Rightarrow> u64" where
  "halving_loop halvings minR i reward =
     (if i < halvings \<and> reward > minR
      then halving_loop halvings minR (i + 1) (reward div 2)
      else reward)"
  by pat_completeness auto
termination
proof (relation "measure (\<lambda>(halvings, minR, i, reward). unat reward)")
  show "wf (measure (\<lambda>(halvings, minR, i, reward). unat reward))" by simp
next
  fix halvings minR i reward :: u64
  assume "i < halvings \<and> minR < reward"
  then have "reward \<noteq> 0" by auto
  then have "0 < unat reward" by (simp add: unat_gt_0)
  then have "unat reward div 2 < unat reward" by simp
  then show "((halvings, minR, i + 1, reward div 2), (halvings, minR, i, reward))
      \<in> measure (\<lambda>(halvings, minR, i, reward). unat reward)"
    by (simp add: unat_div)
qed

declare halving_loop.simps [simp del]

text \<open>
  \<open>height / d.halving\<close> panics in Go when \<open>d.halving\<close> is zero (integer division by
  zero); the panic is the value \<open>None\<close>.
\<close>

definition CalculateBlockReward :: "RewardDistributor \<Rightarrow> u64 \<Rightarrow> u64 option" where
  "CalculateBlockReward d height =
     (if halving d = 0 then None
      else let halvings = height div halving d;
               reward = halving_loop halvings (minReward d) 0 (baseReward d)
           in Some (if reward < minReward d then minReward d else reward))"

text \<open>
  The closed form of the specification,
  \<open>reward(h) = max(min_reward, base_reward >> (h / halving_blocks))\<close>, written from the
  specification's words. A shift of a 64-bit value by 64 or more gives 0, which is what
  \<open>drop_bit\<close> gives on words. The quotient is undefined for \<open>halving_blocks = 0\<close>.
\<close>

definition reward_closed_form :: "RewardDistributor \<Rightarrow> u64 \<Rightarrow> u64 option" where
  "reward_closed_form d h =
     (if halving d = 0 then None
      else Some (max (minReward d) (drop_bit (unat (h div halving d)) (baseReward d))))"

section \<open>Accounts (internal/state/account.go)\<close>

text \<open>
  Go maps are partial functions; reading a missing key of a \<open>map[string]uint64\<close> gives 0.
\<close>

definition lookup0 :: "(string \<rightharpoonup> u64) \<Rightarrow> string \<Rightarrow> u64" where
  "lookup0 m k = (case m k of None \<Rightarrow> 0 | Some v \<Rightarrow> v)"

record Account =
  Address :: string
  acc_Nonce :: u64
  Balances :: "string \<rightharpoonup> u64"
  Staked :: u64
  Delegated :: "string \<rightharpoonup> u64"
  Code :: "8 word list"
  Storage :: "string \<rightharpoonup> 8 word list"
  CreatedAt :: int
  UpdatedAt :: int

definition NewAccount :: "string \<Rightarrow> Account" where
  "NewAccount address =
     \<lparr>Address = address, acc_Nonce = 0, Balances = Map.empty, Staked = 0,
      Delegated = Map.empty, Code = [], Storage = Map.empty, CreatedAt = 0, UpdatedAt = 0\<rparr>"

definition GetBalance :: "Account \<Rightarrow> string \<Rightarrow> u64" where
  "GetBalance a asset = lookup0 (Balances a) asset"

definition SetBalance :: "Account \<Rightarrow> string \<Rightarrow> u64 \<Rightarrow> Account" where
  "SetBalance a asset amount = a\<lparr>Balances := (Balances a)(asset \<mapsto> amount)\<rparr>"

definition IncrementNonce :: "Account \<Rightarrow> Account" where
  "IncrementNonce a = a\<lparr>acc_Nonce := acc_Nonce a + 1\<rparr>"

text \<open>
  \<open>Account.Copy\<close> builds a new account with the same field values (the maps and byte
  slices are copied entry by entry). Accounts are values here, so the copy is the account
  itself; what matters is where the source shares a pointer and where it copies, and
  that is written out in the functions of the state store below.
\<close>

definition Copy :: "Account \<Rightarrow> Account" where
  "Copy a = a"

section \<open>The state store (StateDB)\<close>

datatype StateError = ErrAccountNotFound | ErrInsufficientBalance | ErrAssetNotFound

record StateDB =
  accounts :: "string \<rightharpoonup> Account"
  dirty :: "string \<rightharpoonup> bool"
  root :: string

definition NewStateDB :: StateDB where
  "NewStateDB = \<lparr>accounts = Map.empty, dirty = Map.empty, root = []\<rparr>"

definition GetAccount :: "StateDB \<Rightarrow> string \<Rightarrow> Account option" where
  "GetAccount s address =
     (case accounts s address of None \<Rightarrow> None | Some account \<Rightarrow> Some (Copy account))"

definition SetAccount :: "StateDB \<Rightarrow> string \<Rightarrow> Account \<Rightarrow> StateDB" where
  "SetAccount s address account =
     s\<lparr>accounts := (accounts s)(address \<mapsto> Copy account),
       dirty := (dirty s)(address \<mapsto> True)\<rparr>"

text \<open>\<open>StateDB.GetBalance\<close>: the balance of an address, 0 for an unknown account.\<close>

definition StateDB_GetBalance :: "StateDB \<Rightarrow> string \<Rightarrow> string \<Rightarrow> u64" where
  "StateDB_GetBalance s address asset =
     (case GetAccount s address of None \<Rightarrow> 0 | Some account \<Rightarrow> GetBalance account asset)"

text \<open>
  \<open>StateDB.Transfer\<close> works on the stored accounts themselves (\<open>s.accounts[from]\<close> is
  a pointer, not a copy). The statements are replayed in the source's order on the map:
  the receiver is inserted before the balance check, and the credit reads the receiver
  after the debit, so that \<open>from = to\<close> (one shared account) behaves as in Go. The
  result is the store after the call together with the error, if any.
\<close>

definition Transfer ::
  "StateDB \<Rightarrow> string \<Rightarrow> string \<Rightarrow> string \<Rightarrow> u64 \<Rightarrow> StateDB \<times> StateError option" where
  "Transfer s from to asset amount =
     (case accounts s from of
        None \<Rightarrow> (s, Some ErrAccountNotFound)
      | Some sender \<Rightarrow>
          let s1 = (case accounts s to of
                      None \<Rightarrow> s\<lparr>accounts := (accounts s)(to \<mapsto> NewAccount to)\<rparr>
                    | Some receiver \<Rightarrow> s)
          in if lookup0 (Balances sender) asset < amount
             then (s1, Some ErrInsufficientBalance)
             else
               let sender' = sender\<lparr>Balances :=
                       (Balances sender)(asset \<mapsto> lookup0 (Balances sender) asset - amount)\<rparr>;
                   acc2 = (accounts s1)(from \<mapsto> sender');
                   receiver = the (acc2 to);
                   receiver' = receiver\<lparr>Balances :=
                       (Balances receiver)(asset \<mapsto> lookup0 (Balances receiver) asset + amount)\<rparr>;
                   acc3 = acc2(to \<mapsto> receiver')
               in (s1\<lparr>accounts := acc3,
                      dirty := ((dirty s1)(from \<mapsto> True))(to \<mapsto> True)\<rparr>, None))"

text \<open>A store holding one account \<open>alice\<close> with 5 GYDS and nothing marked dirty.\<close>

definition transfer_example :: StateDB where
  "transfer_example =
     NewStateDB\<lparr>accounts := [''alice'' \<mapsto> SetBalance (NewAccount ''alice'') ''GYDS'' 5]\<rparr>"

section \<open>Transactions (package tx)\<close>

record Transaction =
  Type :: string
  From :: string
  To :: string
  Amount :: u64
  Asset :: string
  Fee :: u64
  Nonce :: u64
  Timestamp :: int
  Data :: "8 word list"
  Signature :: "8 word list"
  PubKey :: "8 word list"

definition TxTypeTransfer :: string where "TxTypeTransfer = ''transfer''"
definition TxTypeStake :: string where "TxTypeStake = ''stake''"
definition TxTypeUnstake :: string where "TxTypeUnstake = ''unstake''"
definition TxTypeMint :: string where "TxTypeMint = ''mint''"
definition TxTypeBurn :: string where "TxTypeBurn = ''burn''"
definition TxTypeCreateAsset :: string where "TxTypeCreateAsset = ''create_asset''"
definition TxTypeUpdateOracle :: string where "TxTypeUpdateOracle = ''update_oracle''"

datatype TxError =
  ErrMissingFrom | ErrMissingTo | ErrZeroAmount | ErrMissingAsset | ErrInvalidAsset
  | ErrMissingSignature

text \<open>\<open>Transaction.Verify\<close>: \<open>None\<close> is Go's \<open>nil\<close> error.\<close>

definition Verify :: "Transaction \<Rightarrow> TxError option" where
  "Verify t =
     (if From t = [] then Some ErrMissingFrom
      else if Type t \<noteq> TxTypeBurn \<and> To t = [] then Some ErrMissingTo
      else if Amount t = 0 \<and> Type t = TxTypeTransfer then Some ErrZeroAmount
      else if Asset t = [] then Some ErrMissingAsset
      else if Asset t \<noteq> ''GYDS'' \<and> Asset t \<noteq> ''GYD'' then Some ErrInvalidAsset
      else if length (Signature t) = 0 then Some ErrMissingSignature
      else None)"

section \<open>Blocks and the chain (package chain)\<close>

record Header =
  Version :: "32 word"
  Height :: u64
  hdr_Timestamp :: int
  ParentHash :: string
  TxRoot :: string
  StateRoot :: string
  ReceiptRoot :: string
  ValidatorSet :: string
  Difficulty :: u64
  hdr_Nonce :: u64
  ExtraData :: "8 word list"
  GasLimit :: u64
  GasUsed :: u64

record Block =
  Header :: Header
  Transactions :: "Transaction list"
  blk_Validator :: string
  blk_Signature :: "8 word list"

text \<open>
  What the chain takes from outside the repository: the clock (\<open>time.Now().Unix()\<close>),
  the hex SHA-256 of the JSON of a header (\<open>Block.Hash\<close>), and the hex Merkle root over
  the SHA-256 hashes of a non-empty transaction list (\<open>Block.CalculateTxRoot\<close>). They are
  parameters of the model.
\<close>

record Host =
  now :: int
  headerHash :: "Header \<Rightarrow> string"
  txRootHex :: "Transaction list \<Rightarrow> string"

datatype ChainError =
  ErrInvalidTimestamp | ErrInvalidHeight | ErrInvalidTxRoot | ErrInvalidParent
  | ErrDuplicateBlock | ErrTx TxError | ErrSenderNotFound | ErrInsufficientFunds

definition Validate :: "Host \<Rightarrow> Header \<Rightarrow> ChainError option" where
  "Validate host h =
     (if hdr_Timestamp h > now host + 15 then Some ErrInvalidTimestamp
      else if Height h > 0 \<and> ParentHash h = [] then Some ErrInvalidHeight
      else None)"

definition CalculateTxRoot :: "Host \<Rightarrow> Block \<Rightarrow> string" where
  "CalculateTxRoot host b =
     (if length (Transactions b) = 0
      then ''0x0000000000000000000000000000000000000000000000000000000000000000''
      else txRootHex host (Transactions b))"

text \<open>The loop of \<open>Block.Verify\<close> over the transactions: the first error is returned.\<close>

fun verify_all :: "Transaction list \<Rightarrow> ChainError option" where
  "verify_all [] = None"
| "verify_all (t # ts) = (case Verify t of Some e \<Rightarrow> Some (ErrTx e) | None \<Rightarrow> verify_all ts)"

definition Block_Verify :: "Host \<Rightarrow> Block \<Rightarrow> ChainError option" where
  "Block_Verify host b =
     (case Validate host (Header b) of
        Some e \<Rightarrow> Some e
      | None \<Rightarrow>
          (case verify_all (Transactions b) of
             Some e \<Rightarrow> Some e
           | None \<Rightarrow>
               if CalculateTxRoot host b \<noteq> TxRoot (Header b) then Some ErrInvalidTxRoot
               else None))"

record Chain =
  blocks :: "string \<rightharpoonup> Block"
  heights :: "u64 \<rightharpoonup> string"
  latestHash :: string
  latestHeight :: u64
  stateDB :: StateDB

text \<open>
  \<open>Chain.processTransaction\<close>. \<open>GetAccount\<close> hands out copies, so \<open>sender\<close> and
  \<open>receiver\<close> are two separate accounts even when \<open>From = To\<close>; both are written back,
  the receiver last. The transaction's \<open>Type\<close> is never read. An error leaves the store
  as it was (\<open>Inl\<close>), success gives the new store (\<open>Inr\<close>).
\<close>

definition processTransaction :: "StateDB \<Rightarrow> Transaction \<Rightarrow> ChainError + StateDB" where
  "processTransaction s transaction =
     (case GetAccount s (From transaction) of
        None \<Rightarrow> Inl ErrSenderNotFound
      | Some sender \<Rightarrow>
          let balance = GetBalance sender (Asset transaction)
          in if balance < Amount transaction + Fee transaction then Inl ErrInsufficientFunds
             else
               let receiver = (case GetAccount s (To transaction) of
                                 None \<Rightarrow> NewAccount (To transaction)
                               | Some r \<Rightarrow> r);
                   sender1 = SetBalance sender (Asset transaction)
                               (balance - Amount transaction - Fee transaction);
                   receiver1 = SetBalance receiver (Asset transaction)
                               (GetBalance receiver (Asset transaction) + Amount transaction);
                   sender2 = IncrementNonce sender1;
                   s1 = SetAccount s (From transaction) sender2;
                   s2 = SetAccount s1 (To transaction) receiver1
               in Inr s2)"

text \<open>
  The loop of \<open>AddBlock\<close> over the block's transactions. The store is updated in place
  by every transaction that succeeds, so the result carries the store reached when the
  loop stops, with the error that stopped it, if any.
\<close>

fun process_all :: "StateDB \<Rightarrow> Transaction list \<Rightarrow> StateDB \<times> ChainError option" where
  "process_all s [] = (s, None)"
| "process_all s (t # ts) =
     (case processTransaction s t of
        Inl e \<Rightarrow> (s, Some e)
      | Inr s' \<Rightarrow> process_all s' ts)"

definition AddBlock :: "Host \<Rightarrow> Chain \<Rightarrow> Block \<Rightarrow> Chain \<times> ChainError option" where
  "AddBlock host c block =
     (case Block_Verify host block of
        Some e \<Rightarrow> (c, Some e)
      | None \<Rightarrow>
          if Height (Header block) > 0 \<and> blocks c (ParentHash (Header block)) = None
          then (c, Some ErrInvalidParent)
          else
            let hash = headerHash host (Header block)
            in if blocks c hash \<noteq> None then (c, Some ErrDuplicateBlock)
               else
                 (case process_all (stateDB c) (Transactions block) of
                    (s', Some e) \<Rightarrow> (c\<lparr>stateDB := s'\<rparr>, Some e)
                  | (s', None) \<Rightarrow>
                      let c1 = c\<lparr>stateDB := s',
                                 blocks := (blocks c)(hash \<mapsto> block),
                                 heights := (heights c)(Height (Header block) \<mapsto> hash)\<rparr>;
                          c2 = (if Height (Header block) > latestHeight c1
                                then c1\<lparr>latestHeight := Height (Header block),
                                        latestHash := hash\<rparr>
                                else c1)
                      in (c2, None)))"

subsection \<open>A chain with a genesis block and one funded account\<close>

text \<open>
  The hash functions of the example stand in for SHA-256 over JSON; nothing below depends
  on their values beyond the genesis header and the header of the new block having
  different hashes.
\<close>

definition example_host :: Host where
  "example_host =
     \<lparr>now = 1700000000,
      headerHash = (\<lambda>h. if Height h = 0 then ''hash-of-genesis'' else ''hash-of-block''),
      txRootHex = (\<lambda>txs. ''root-of-transactions'')\<rparr>"

definition example_header :: "u64 \<Rightarrow> string \<Rightarrow> string \<Rightarrow> Header" where
  "example_header height parent txroot =
     \<lparr>Version = 1, Height = height, hdr_Timestamp = 1700000000, ParentHash = parent,
      TxRoot = txroot, StateRoot = [], ReceiptRoot = [], ValidatorSet = [],
      Difficulty = 1000, hdr_Nonce = 0, ExtraData = [], GasLimit = 10000000, GasUsed = 0\<rparr>"

definition example_genesis :: Block where
  "example_genesis =
     \<lparr>Header = example_header 0 []
         ''0x0000000000000000000000000000000000000000000000000000000000000000'',
      Transactions = [], blk_Validator = [], blk_Signature = []\<rparr>"

definition example_state :: StateDB where
  "example_state =
     SetAccount (SetAccount NewStateDB ''alice'' (SetBalance (NewAccount ''alice'') ''GYDS'' 1000))
       ''bob'' (SetBalance (NewAccount ''bob'') ''GYDS'' 0)"

definition example_chain :: Chain where
  "example_chain =
     \<lparr>blocks = [''hash-of-genesis'' \<mapsto> example_genesis],
      heights = [0 \<mapsto> ''hash-of-genesis''],
      latestHash = ''hash-of-genesis'', latestHeight = 0,
      stateDB = example_state\<rparr>"

definition example_tx :: "string \<Rightarrow> string \<Rightarrow> string \<Rightarrow> u64 \<Rightarrow> u64 \<Rightarrow> u64 \<Rightarrow> Transaction" where
  "example_tx ty from to amount fee nonce =
     \<lparr>Type = ty, From = from, To = to, Amount = amount, Asset = ''GYDS'', Fee = fee,
      Nonce = nonce, Timestamp = 1700000000, Data = [], Signature = [1], PubKey = [2]\<rparr>"

text \<open>
  A block at height 1 on top of the genesis block: its first transaction (alice pays bob
  100, fee 1) applies, its second (alice pays bob 2000, fee 1) fails the balance check.
\<close>

definition example_block :: Block where
  "example_block =
     \<lparr>Header = example_header 1 ''hash-of-genesis'' ''root-of-transactions'',
      Transactions = [example_tx ''transfer'' ''alice'' ''bob'' 100 1 0,
                      example_tx ''transfer'' ''alice'' ''bob'' 2000 1 1],
      blk_Validator = ''validator'', blk_Signature = [3]\<rparr>"

text \<open>A transfer whose sender and receiver are the same account: alice pays alice 100, fee 1.\<close>

definition example_self_transfer :: Transaction where
  "example_self_transfer = example_tx ''transfer'' ''alice'' ''alice'' 100 1 0"

text \<open>A burn: the receiver is empty, which \<open>Verify\<close> accepts for this type only.\<close>

definition example_burn :: Transaction where
  "example_burn = example_tx ''burn'' ''alice'' [] 100 1 0"

section \<open>Validators (internal/consensus/pos/validator.go)\<close>

datatype ValidatorStatus = StatusInactive | StatusActive | StatusJailed | StatusUnbonding

record SlashEvent =
  se_Height :: u64
  se_Reason :: string
  se_Amount :: u64
  se_Timestamp :: int

text \<open>
  The \<open>Delegations\<close> map is an association list with one entry per delegator; the order
  of the list stands for the order in which Go happens to range over the map. The
  floating-point \<open>Uptime\<close> and the display metadata are left out.
\<close>

record Validator =
  val_Address :: string
  val_PubKey :: string
  SelfStake :: u64
  TotalStake :: u64
  Delegations :: "(string \<times> u64) list"
  Commission :: u64
  Rewards :: u64
  Status :: ValidatorStatus
  Active :: bool
  JailedUntil :: int
  UnbondingEnd :: int
  SlashEvents :: "SlashEvent list"
  val_CreatedAt :: int
  val_UpdatedAt :: int
  BlocksProduced :: u64
  BlocksMissed :: u64

definition NewValidator :: "int \<Rightarrow> string \<Rightarrow> string \<Rightarrow> u64 \<Rightarrow> Validator" where
  "NewValidator clock address pubKey stake =
     \<lparr>val_Address = address, val_PubKey = pubKey, SelfStake = stake, TotalStake = stake,
      Delegations = [], Commission = 500, Rewards = 0, Status = StatusActive, Active = True,
      JailedUntil = 0, UnbondingEnd = 0, SlashEvents = [], val_CreatedAt = clock,
      val_UpdatedAt = clock, BlocksProduced = 0, BlocksMissed = 0\<rparr>"

definition delegation_of :: "(string \<times> u64) list \<Rightarrow> string \<Rightarrow> u64" where
  "delegation_of ds delegator = (case map_of ds delegator of None \<Rightarrow> 0 | Some a \<Rightarrow> a)"

definition AddDelegation :: "int \<Rightarrow> Validator \<Rightarrow> string \<Rightarrow> u64 \<Rightarrow> Validator" where
  "AddDelegation clock v delegator amount =
     v\<lparr>Delegations :=
         AList.update delegator (delegation_of (Delegations v) delegator + amount) (Delegations v),
       TotalStake := TotalStake v + amount,
       val_UpdatedAt := clock\<rparr>"

text \<open>
  The loop of \<open>Slash\<close> over the delegations:
  \<^verbatim>\<open>delegatorSlash := (amount * remaining) / (v.TotalStake - v.SelfStake)\<close>
  \<^verbatim>\<open>v.Delegations[delegator] -= delegatorSlash\<close>
  The divisor is read inside the loop, after \<open>v.SelfStake\<close> has been set to 0, and does
  not change during the loop. A zero divisor panics (\<open>None\<close>).
\<close>

fun slash_delegations :: "u64 \<Rightarrow> u64 \<Rightarrow> (string \<times> u64) list \<Rightarrow> (string \<times> u64) list option" where
  "slash_delegations remaining divisor [] = Some []"
| "slash_delegations remaining divisor ((delegator, amount) # ds) =
     (if divisor = 0 then None
      else case slash_delegations remaining divisor ds of
             None \<Rightarrow> None
           | Some ds' \<Rightarrow> Some ((delegator, amount - (amount * remaining) div divisor) # ds'))"

definition Slash :: "int \<Rightarrow> Validator \<Rightarrow> u64 \<Rightarrow> string \<Rightarrow> u64 \<Rightarrow> (Validator \<times> u64) option" where
  "Slash clock v percentage reason height =
     (let slashAmount = (TotalStake v * percentage) div 100;
          slashed =
            (if SelfStake v \<ge> slashAmount
             then Some (v\<lparr>SelfStake := SelfStake v - slashAmount\<rparr>)
             else
               let remaining = slashAmount - SelfStake v;
                   v1 = v\<lparr>SelfStake := 0\<rparr>
               in case slash_delegations remaining (TotalStake v1 - SelfStake v1)
                         (Delegations v1) of
                    None \<Rightarrow> None
                  | Some ds \<Rightarrow> Some (v1\<lparr>Delegations := ds\<rparr>))
      in case slashed of
           None \<Rightarrow> None
         | Some v2 \<Rightarrow>
             Some (v2\<lparr>TotalStake := TotalStake v2 - slashAmount,
                      SlashEvents := SlashEvents v2 @
                        [\<lparr>se_Height = height, se_Reason = reason, se_Amount = slashAmount,
                          se_Timestamp = clock\<rparr>],
                      val_UpdatedAt := clock\<rparr>,
                   slashAmount))"

text \<open>The invariant of the data model: \<open>total_stake = self_stake + \<Sum> delegations\<close>.\<close>

definition stake_invariant :: "Validator \<Rightarrow> bool" where
  "stake_invariant v \<longleftrightarrow>
     TotalStake v = SelfStake v + sum_list (map snd (Delegations v))"

text \<open>A validator with self-stake 10 and one delegation of 990.\<close>

definition slash_example :: Validator where
  "slash_example = AddDelegation 0 (NewValidator 0 ''validator'' ''pubkey'' 10) ''delegator'' 990"

section \<open>Signing windows (internal/consensus/pos/slashing.go)\<close>

record SlashingParams =
  DoubleSignPenalty :: u64
  DowntimePenalty :: u64
  MisbehaviorPenalty :: u64
  MinSignedPerWindow :: u64
  SignedBlocksWindow :: u64

record ValidatorSigningInfo =
  si_Address :: string
  StartHeight :: u64
  IndexOffset :: u64
  si_JailedUntil :: int
  Tombstoned :: bool
  MissedBlocksCounter :: u64
  SignedBlocksBitmap :: "bool list"

record SlashingKeeper =
  params :: SlashingParams
  signingInfo :: "string \<rightharpoonup> ValidatorSigningInfo"

definition NewSlashingKeeper :: "SlashingParams \<Rightarrow> SlashingKeeper" where
  "NewSlashingKeeper ps = \<lparr>params = ps, signingInfo = Map.empty\<rparr>"

text \<open>
  \<open>getOrCreateSigningInfo\<close> returns the stored record, or stores and returns a new one
  whose bitmap is \<open>make([]bool, SignedBlocksWindow)\<close>, all \<open>false\<close>, with counter 0.
\<close>

definition new_signing_info :: "SlashingKeeper \<Rightarrow> string \<Rightarrow> ValidatorSigningInfo" where
  "new_signing_info k address =
     \<lparr>si_Address = address, StartHeight = 0, IndexOffset = 0, si_JailedUntil = 0,
      Tombstoned = False, MissedBlocksCounter = 0,
      SignedBlocksBitmap = replicate (unat (SignedBlocksWindow (params k))) False\<rparr>"

definition getOrCreateSigningInfo ::
  "SlashingKeeper \<Rightarrow> string \<Rightarrow> SlashingKeeper \<times> ValidatorSigningInfo" where
  "getOrCreateSigningInfo k address =
     (case signingInfo k address of
        Some info \<Rightarrow> (k, info)
      | None \<Rightarrow>
          (k\<lparr>signingInfo := (signingInfo k)(address \<mapsto> new_signing_info k address)\<rparr>,
           new_signing_info k address))"

text \<open>
  \<open>SignBlock\<close>. \<open>height % SignedBlocksWindow\<close> panics for a zero window (\<open>None\<close>).
  \<open>copy(newBitmap, old)\<close> into a fresh all-\<open>false\<close> slice of the window's length is
  \<open>take W (old @ replicate W False)\<close>. The record is updated through its pointer, so the
  new record replaces the stored one. The second component of the result tells whether
  the downtime handler was started (it runs as a separate goroutine and is not part of
  this call).
\<close>

definition SignBlock ::
  "SlashingKeeper \<Rightarrow> string \<Rightarrow> u64 \<Rightarrow> bool \<Rightarrow> (SlashingKeeper \<times> bool) option" where
  "SignBlock k address height signed' =
     (let (k1, info) = getOrCreateSigningInfo k address;
          W = SignedBlocksWindow (params k1)
      in if W = 0 then None
         else
           let index = unat (height mod W);
               bitmap0 = SignedBlocksBitmap info;
               bitmap1 = (if length bitmap0 \<le> index
                          then take (unat W) (bitmap0 @ replicate (unat W) False)
                          else bitmap0);
               counter1 = (if \<not> bitmap1 ! index \<and> MissedBlocksCounter info > 0
                           then MissedBlocksCounter info - 1
                           else MissedBlocksCounter info);
               bitmap2 = bitmap1[index := signed'];
               counter2 = (if \<not> signed' then counter1 + 1 else counter1);
               info' = info\<lparr>SignedBlocksBitmap := bitmap2, MissedBlocksCounter := counter2\<rparr>;
               minSigned = (W * MinSignedPerWindow (params k1)) div 100
           in Some (k1\<lparr>signingInfo := (signingInfo k1)(address \<mapsto> info')\<rparr>,
                    counter2 > W - minSigned))"

text \<open>The number of \<open>false\<close> entries of a bitmap.\<close>

definition count_false :: "bool list \<Rightarrow> nat" where
  "count_false bitmap = length (filter (\<lambda>b. \<not> b) bitmap)"

text \<open>A keeper with a window of 10 blocks, of which 50 percent must be signed.\<close>

definition example_params :: SlashingParams where
  "example_params =
     \<lparr>DoubleSignPenalty = 500, DowntimePenalty = 100, MisbehaviorPenalty = 200,
      MinSignedPerWindow = 50, SignedBlocksWindow = 10\<rparr>"

text \<open>Two misses by the same validator, at heights 0 and 1, on a new keeper.\<close>

definition two_misses :: "SlashingKeeper option" where
  "two_misses =
     (case SignBlock (NewSlashingKeeper example_params) ''validator'' 0 False of
        None \<Rightarrow> None
      | Some (k1, d1) \<Rightarrow>
          (case SignBlock k1 ''validator'' 1 False of
             None \<Rightarrow> None
           | Some (k2, d2) \<Rightarrow> Some k2))"

section \<open>The consensus engine (package pos)\<close>

text \<open>
  The \<open>validators\<close> map is an association list, one entry per address, whose order stands
  for the order in which Go ranges over the map. \<open>validatorList\<close> holds the validators
  themselves: every change of a validator inside the engine is followed by a rebuild of
  the list. \<open>PanicDivideByZero\<close> is Go's run-time panic on \<open>round % 0\<close>;
  \<open>ErrStakeTooLow\<close> is the unnamed error "stake too low to join validator set".
\<close>

datatype PosError =
  ErrNoValidators | ErrNotValidator | ErrInsufficientStake | ErrValidatorNotFound
  | ErrAlreadyValidator | ErrStakeTooLow | PanicDivideByZero

record Engine =
  validators :: "(string \<times> Validator) list"
  validatorList :: "Validator list"
  totalStake :: u64
  minStake :: u64
  maxValidators :: "32 word"
  currentRound :: u64
  currentLeader :: string

definition NewEngine :: "u64 \<Rightarrow> 32 word \<Rightarrow> Engine" where
  "NewEngine minStake' maxValidators' =
     \<lparr>validators = [], validatorList = [], totalStake = 0, minStake = minStake',
      maxValidators = maxValidators', currentRound = 0, currentLeader = []\<rparr>"

text \<open>
  \<open>updateValidatorList\<close>. \<open>sort.Slice\<close> is not stable and says nothing about the order
  of validators of equal stake, so the sorting function is a parameter \<open>srt\<close> of the
  model; \<open>sorts_by_stake\<close> is what Go promises of it with the comparison
  \<open>TotalStake[i] > TotalStake[j]\<close>.
\<close>

definition updateValidatorList :: "(Validator list \<Rightarrow> Validator list) \<Rightarrow> Engine \<Rightarrow> Engine" where
  "updateValidatorList srt e =
     (let l0 = filter (\<lambda>v. Active v \<and> TotalStake v \<ge> minStake e) (map snd (validators e));
          l1 = srt l0;
          l2 = (if (of_nat (length l1) :: 32 word) > maxValidators e
                then take (unat (maxValidators e)) l1
                else l1)
      in e\<lparr>validatorList := l2\<rparr>)"

definition sorts_by_stake :: "(Validator list \<Rightarrow> Validator list) \<Rightarrow> bool" where
  "sorts_by_stake srt \<longleftrightarrow>
     (\<forall>xs. mset (srt xs) = mset xs \<and>
           sorted_wrt (\<lambda>a b. TotalStake a \<ge> TotalStake b) (srt xs))"

text \<open>Insertion sort by descending stake, one function that \<open>sort.Slice\<close> may behave as.\<close>

fun insert_by_stake :: "Validator \<Rightarrow> Validator list \<Rightarrow> Validator list" where
  "insert_by_stake v [] = [v]"
| "insert_by_stake v (w # ws) =
     (if TotalStake w \<ge> TotalStake v then w # insert_by_stake v ws else v # w # ws)"

definition sort_by_stake :: "Validator list \<Rightarrow> Validator list" where
  "sort_by_stake xs = foldr insert_by_stake xs []"

definition RegisterValidator ::
  "(Validator list \<Rightarrow> Validator list) \<Rightarrow> int \<Rightarrow> Engine \<Rightarrow> string \<Rightarrow> string \<Rightarrow> u64
     \<Rightarrow> Engine \<times> PosError option" where
  "RegisterValidator srt clock e address pubKey stake =
     (if map_of (validators e) address \<noteq> None then (e, Some ErrAlreadyValidator)
      else if stake < minStake e then (e, Some ErrInsufficientStake)
      else if (of_nat (length (validators e)) :: 32 word) \<ge> maxValidators e
              \<and> length (validatorList e) > 0
              \<and> stake \<le> TotalStake (last (validatorList e))
      then (e, Some ErrStakeTooLow)
      else
        let validator = NewValidator clock address pubKey stake;
            e1 = e\<lparr>validators := AList.update address validator (validators e),
                   totalStake := totalStake e + stake\<rparr>
        in (updateValidatorList srt e1, None))"

text \<open>
  The loop of \<open>SelectLeader\<close>:
  \<^verbatim>\<open>cumulative += v.TotalStake; if cumulative > target { return v }\<close>
\<close>

fun walk :: "u64 \<Rightarrow> u64 \<Rightarrow> Validator list \<Rightarrow> Validator option" where
  "walk target cumulative [] = None"
| "walk target cumulative (v # vs) =
     (if cumulative + TotalStake v > target then Some v
      else walk target (cumulative + TotalStake v) vs)"

definition SelectLeader :: "Engine \<Rightarrow> u64 \<Rightarrow> PosError + Engine \<times> Validator" where
  "SelectLeader e round =
     (if length (validatorList e) = 0 then Inl ErrNoValidators
      else if totalStake e = 0 then Inl PanicDivideByZero
      else
        let totalWeight = totalStake e;
            target = round mod totalWeight
        in case walk target 0 (validatorList e) of
             Some v \<Rightarrow> Inr (e\<lparr>currentRound := round, currentLeader := val_Address v\<rparr>, v)
           | None \<Rightarrow>
               Inr (e\<lparr>currentRound := round,
                       currentLeader := val_Address (hd (validatorList e))\<rparr>,
                    hd (validatorList e)))"

definition leader_of :: "PosError + Engine \<times> Validator \<Rightarrow> string option" where
  "leader_of result = (case result of Inl err \<Rightarrow> None | Inr (e', v) \<Rightarrow> Some (val_Address v))"








text \<open>
  The proposer selection in the words of the specification: \<open>T\<close> is the sum of
  \<open>total_stake\<close> over the active list, \<open>target = r mod T\<close>, and the list is walked,
  accumulating stake, until \<open>cumulative > target\<close>.
\<close>

definition spec_T :: "Validator list \<Rightarrow> nat" where
  "spec_T active = sum_list (map (\<lambda>v. unat (TotalStake v)) active)"



text \<open>
  An engine with \<open>minStake = 1\<close> and \<open>maxValidators = 2\<close> after registering \<open>v1\<close> (100),
  \<open>v2\<close> (50) and \<open>v3\<close> (200): three validators are registered, two are in the list.
\<close>

definition example_engine :: Engine where
  "example_engine =
     fst (RegisterValidator sort_by_stake 0
       (fst (RegisterValidator sort_by_stake 0
         (fst (RegisterValidator sort_by_stake 0 (NewEngine 1 2) ''v1'' ''key1'' 100))
         ''v2'' ''key2'' 50))
       ''v3'' ''key3'' 200)"



definition sort_by_stake_rev :: "Validator list \<Rightarrow> Validator list" where
  "sort_by_stake_rev xs = sort_by_stake (rev xs)"

text \<open>Two validators of equal stake, and two validators whose stakes add up to \<open>2 ^ 64\<close>.\<close>

definition tie_engine :: Engine where
  "tie_engine =
     fst (RegisterValidator sort_by_stake 0
       (fst (RegisterValidator sort_by_stake 0 (NewEngine 1 10) ''v1'' ''key1'' 100))
       ''v2'' ''key2'' 100)"

definition wrapped_engine :: Engine where
  "wrapped_engine =
     fst (RegisterValidator sort_by_stake 0
       (fst (RegisterValidator sort_by_stake 0 (NewEngine 1 10) ''v1'' ''key1'' (2 ^ 63)))
       ''v2'' ''key2'' (2 ^ 63))"



section \<open>The mempool (package tx)\<close>

text \<open>Durations and instants are integers (Go counts nanoseconds).\<close>

record MempoolConfig =
  MaxSize :: int
  MaxTxSize :: int
  MaxTxAge :: int
  MinGasPrice :: u64

definition DefaultMempoolConfig :: MempoolConfig where
  "DefaultMempoolConfig =
     \<lparr>MaxSize = 10000, MaxTxSize = 1024 * 1024, MaxTxAge = 3600000000000, MinGasPrice = 1\<rparr>"

record MempoolTx =
  Tx :: Transaction
  Hash :: string
  AddedAt :: int
  GasPrice :: u64
  Priority :: int

text \<open>
  The \<open>txs\<close> map is an association list with one entry per hash, whose order stands
  for the order in which Go ranges over the map; \<open>queue\<close> is the slice behind the heap.
\<close>

record Mempool =
  config :: MempoolConfig
  txs :: "(string \<times> MempoolTx) list"
  queue :: "MempoolTx list"
  nonces :: "string \<rightharpoonup> u64"

text \<open>
  What the pool takes from outside the repository: the clock, the length of the JSON of a
  transaction (\<open>Transaction.Size\<close>) and the hex SHA-256 of that JSON
  (\<open>Transaction.HashHex\<close>).
\<close>

record MempoolHost =
  clock :: int
  txSize :: "Transaction \<Rightarrow> int"
  txHashHex :: "Transaction \<Rightarrow> string"

text \<open>\<open>PanicZeroSize\<close> is Go's run-time panic on \<open>tx.Fee / uint64(tx.Size())\<close> for size 0.\<close>

datatype MempoolError =
  ErrInvalidTx TxError | ErrTxTooLarge | ErrGasPriceTooLow | ErrDuplicateTx | ErrMempoolFull
  | ErrNonceTooLow | PanicZeroSize

subsection \<open>The priority queue: TxQueue under Go's container/heap\<close>

text \<open>\<open>TxQueue.Less\<close> and \<open>TxQueue.Swap\<close>.\<close>

definition Less :: "MempoolTx list \<Rightarrow> nat \<Rightarrow> nat \<Rightarrow> bool" where
  "Less q i j \<longleftrightarrow> GasPrice (q ! i) > GasPrice (q ! j)"

definition Swap :: "MempoolTx list \<Rightarrow> nat \<Rightarrow> nat \<Rightarrow> MempoolTx list" where
  "Swap q i j = q[i := q ! j, j := q ! i]"

text \<open>
  \<open>up\<close> and \<open>down\<close> of the standard library's \<open>container/heap\<close>, which
  \<open>heap.Push\<close> and \<open>heap.Pop\<close> run on the queue:
  \<^verbatim>\<open>i := (j - 1) / 2; if i == j || !h.Less(j, i) { break }; h.Swap(i, j); j = i\<close>
  (Go's \<open>(0 - 1) / 2\<close> is 0, so the loop stops at the root), and
  \<^verbatim>\<open>j1 := 2*i + 1; if j1 >= n { break }; j := j1\<close>
  \<^verbatim>\<open>if j2 := j1 + 1; j2 < n && h.Less(j2, j1) { j = j2 }\<close>
  \<^verbatim>\<open>if !h.Less(j, i) { break }; h.Swap(i, j); i = j\<close>
\<close>

function up :: "MempoolTx list \<Rightarrow> nat \<Rightarrow> MempoolTx list" where
  "up q j =
     (if j = 0 then q
      else let i = (j - 1) div 2
           in if \<not> Less q j i then q else up (Swap q i j) i)"
  by pat_completeness auto
termination
  by (relation "measure (\<lambda>(q, j). j)") auto

declare up.simps [simp del]

function down :: "MempoolTx list \<Rightarrow> nat \<Rightarrow> nat \<Rightarrow> MempoolTx list" where
  "down q i n =
     (let j1 = 2 * i + 1
      in if j1 \<ge> n then q
         else let j = (if j1 + 1 < n \<and> Less q (j1 + 1) j1 then j1 + 1 else j1)
              in if \<not> Less q j i then q else down (Swap q i j) j n)"
  by pat_completeness auto
termination
  by (relation "measure (\<lambda>(q, i, n). n - i)") auto

declare down.simps [simp del]

text \<open>
  \<open>heap.Push\<close> appends and sifts up; \<open>heap.Pop\<close> swaps the root with the last
  element, sifts the new root down within the first \<open>n\<close> elements and removes the last
  element. The pool calls \<open>heap.Pop\<close> on a non-empty queue only.
\<close>

definition heap_Push :: "MempoolTx list \<Rightarrow> MempoolTx \<Rightarrow> MempoolTx list" where
  "heap_Push q x = up (q @ [x]) (length (q @ [x]) - 1)"

definition heap_Pop :: "MempoolTx list \<Rightarrow> MempoolTx \<times> MempoolTx list" where
  "heap_Pop q =
     (let n = length q - 1;
          q1 = down (Swap q 0 n) 0 n
      in (q1 ! n, take n q1))"

subsection \<open>The pool\<close>

definition NewMempool :: "MempoolConfig \<Rightarrow> Mempool" where
  "NewMempool cfg = \<lparr>config = cfg, txs = [], queue = [], nonces = Map.empty\<rparr>"

definition rebuildQueue :: "Mempool \<Rightarrow> Mempool" where
  "rebuildQueue mp = mp\<lparr>queue := foldl heap_Push [] (map snd (txs mp))\<rparr>"

definition evictLowest :: "Mempool \<Rightarrow> u64 \<Rightarrow> Mempool \<times> bool" where
  "evictLowest mp minGasPrice =
     (if length (queue mp) = 0 then (mp, False)
      else let lowest = queue mp ! (length (queue mp) - 1)
           in if GasPrice lowest \<ge> minGasPrice then (mp, False)
              else (rebuildQueue (mp\<lparr>txs := AList.delete (Hash lowest) (txs mp)\<rparr>), True))"

definition AddTx :: "MempoolHost \<Rightarrow> Mempool \<Rightarrow> Transaction \<Rightarrow> Mempool \<times> MempoolError option" where
  "AddTx host mp tx =
     (case Verify tx of
        Some e \<Rightarrow> (mp, Some (ErrInvalidTx e))
      | None \<Rightarrow>
          if txSize host tx > MaxTxSize (config mp) then (mp, Some ErrTxTooLarge)
          else if (word_of_int (txSize host tx) :: u64) = 0 then (mp, Some PanicZeroSize)
          else
            let gasPrice = Fee tx div word_of_int (txSize host tx)
            in if gasPrice < MinGasPrice (config mp) then (mp, Some ErrGasPriceTooLow)
               else
                 let hash = txHashHex host tx
                 in if map_of (txs mp) hash \<noteq> None then (mp, Some ErrDuplicateTx)
                    else
                      let (mp1, full) =
                            (if int (length (txs mp)) \<ge> MaxSize (config mp)
                             then (case evictLowest mp gasPrice of
                                     (m, evicted) \<Rightarrow> (m, \<not> evicted))
                             else (mp, False))
                      in if full then (mp1, Some ErrMempoolFull)
                         else
                           let currentNonce = lookup0 (nonces mp1) (From tx)
                           in if Nonce tx < currentNonce then (mp1, Some ErrNonceTooLow)
                              else
                                let mtx = \<lparr>Tx = tx, Hash = hash, AddedAt = clock host,
                                           GasPrice = gasPrice, Priority = sint gasPrice\<rparr>;
                                    mp2 = mp1\<lparr>txs := AList.update hash mtx (txs mp1),
                                              queue := heap_Push (queue mp1) mtx\<rparr>;
                                    mp3 = (if Nonce tx \<ge> lookup0 (nonces mp2) (From tx)
                                           then mp2\<lparr>nonces := (nonces mp2)(From tx \<mapsto> Nonce tx + 1)\<rparr>
                                           else mp2)
                                in (mp3, None))"

text \<open>
  The first loop of \<open>ReapMaxTxs\<close>: pop while fewer than \<open>maxTxs\<close> transactions are
  collected and the queue is not empty; an expired entry is deleted from \<open>txs\<close> and
  skipped. The loop variables are the entries collected so far, the \<open>txs\<close> map and the
  queue.
\<close>

function reap_loop ::
  "int \<Rightarrow> int \<Rightarrow> int \<Rightarrow> MempoolTx list \<Rightarrow> (string \<times> MempoolTx) list \<Rightarrow> MempoolTx list
     \<Rightarrow> MempoolTx list \<times> (string \<times> MempoolTx) list \<times> MempoolTx list" where
  "reap_loop now' maxAge maxTxs out txmap q =
     (if int (length out) < maxTxs \<and> length q > 0
      then let (mtx, q') = heap_Pop q
           in if now' - AddedAt mtx > maxAge
              then reap_loop now' maxAge maxTxs out (AList.delete (Hash mtx) txmap) q'
              else reap_loop now' maxAge maxTxs (out @ [mtx]) txmap q'
      else (out, txmap, q))"
  by pat_completeness auto
termination
  by (relation "measure (\<lambda>(now', maxAge, maxTxs, out, txmap, q). length q)")
     (auto simp add: heap_Pop_def Let_def min_less_iff_disj)

declare reap_loop.simps [simp del]

text \<open>The second loop of \<open>ReapMaxTxs\<close> pushes the collected entries back.\<close>

fun readd :: "MempoolHost \<Rightarrow> (string \<times> MempoolTx) list \<Rightarrow> MempoolTx list \<Rightarrow> Transaction list \<Rightarrow> MempoolTx list" where
  "readd host txmap q [] = q"
| "readd host txmap q (tx # rest) =
     (case map_of txmap (txHashHex host tx) of
        Some mtx \<Rightarrow> readd host txmap (heap_Push q mtx) rest
      | None \<Rightarrow> readd host txmap q rest)"

text \<open>The entries that \<open>ReapMaxTxs\<close> collects; it returns their transactions.\<close>

definition reaped :: "MempoolHost \<Rightarrow> Mempool \<Rightarrow> int \<Rightarrow> MempoolTx list" where
  "reaped host mp maxTxs =
     fst (reap_loop (clock host) (MaxTxAge (config mp))
            (if maxTxs \<le> 0 then MaxSize (config mp) else maxTxs) [] (txs mp) (queue mp))"

definition ReapMaxTxs :: "MempoolHost \<Rightarrow> Mempool \<Rightarrow> int \<Rightarrow> Transaction list \<times> Mempool" where
  "ReapMaxTxs host mp maxTxs =
     (let maxTxs1 = (if maxTxs \<le> 0 then MaxSize (config mp) else maxTxs);
          (out, txmap, q) = reap_loop (clock host) (MaxTxAge (config mp)) maxTxs1 []
                              (txs mp) (queue mp);
          result = map Tx out
      in (result, mp\<lparr>txs := txmap, queue := readd host txmap q result\<rparr>))"

text \<open>
  \<open>RemoveTx\<close>, \<open>Update\<close> and \<open>cleanup\<close>, the other operations that change the pool.
  \<open>RemoveTx\<close> deletes from \<open>txs\<close> only; the other two rebuild the queue.
\<close>

definition RemoveTx :: "Mempool \<Rightarrow> string \<Rightarrow> Mempool" where
  "RemoveTx mp hash = mp\<lparr>txs := AList.delete hash (txs mp)\<rparr>"

definition Update :: "MempoolHost \<Rightarrow> Mempool \<Rightarrow> Transaction list \<Rightarrow> Mempool" where
  "Update host mp confirmedTxs =
     rebuildQueue
       (mp\<lparr>txs := foldl (\<lambda>m tx. AList.delete (txHashHex host tx) m) (txs mp) confirmedTxs\<rparr>)"

definition cleanup :: "MempoolHost \<Rightarrow> Mempool \<Rightarrow> Mempool" where
  "cleanup host mp =
     rebuildQueue
       (mp\<lparr>txs := filter (\<lambda>(hash, mtx). \<not> clock host - AddedAt mtx > MaxTxAge (config mp))
                      (txs mp)\<rparr>)"

text \<open>The pools that a new pool can become through its operations.\<close>

inductive pool_reachable :: "Mempool \<Rightarrow> bool" where
  new: "pool_reachable (NewMempool cfg)"
| add: "pool_reachable mp \<Longrightarrow> pool_reachable (fst (AddTx host mp tx))"
| remove: "pool_reachable mp \<Longrightarrow> pool_reachable (RemoveTx mp hash)"
| reap: "pool_reachable mp \<Longrightarrow> pool_reachable (snd (ReapMaxTxs host mp maxTxs))"
| update: "pool_reachable mp \<Longrightarrow> pool_reachable (Update host mp confirmedTxs)"
| cleanup: "pool_reachable mp \<Longrightarrow> pool_reachable (cleanup host mp)"

subsection \<open>The heap property\<close>

text \<open>
  The first \<open>n\<close> elements of a queue form a heap when no element has a higher gas price
  than its parent, at index \<open>(j - 1) / 2\<close>.
\<close>

definition heap_upto :: "MempoolTx list \<Rightarrow> nat \<Rightarrow> bool" where
  "heap_upto q n \<longleftrightarrow>
     (\<forall>j. 0 < j \<and> j < n \<longrightarrow> GasPrice (q ! ((j - 1) div 2)) \<ge> GasPrice (q ! j))"

definition heap_ok :: "MempoolTx list \<Rightarrow> bool" where
  "heap_ok q \<longleftrightarrow> heap_upto q (length q)"

text \<open>The child that \<open>down\<close> compares with the element at \<open>i\<close>.\<close>

definition larger_child :: "MempoolTx list \<Rightarrow> nat \<Rightarrow> nat \<Rightarrow> nat" where
  "larger_child q i n =
     (if 2 * i + 1 + 1 < n \<and> Less q (2 * i + 1 + 1) (2 * i + 1) then 2 * i + 1 + 1
      else 2 * i + 1)"

text \<open>
  The states that \<open>down\<close> and \<open>up\<close> run through: a heap but for the element at one
  index, whose parent is no lower than its children.
\<close>

definition down_inv :: "MempoolTx list \<Rightarrow> nat \<Rightarrow> nat \<Rightarrow> bool" where
  "down_inv q i n \<longleftrightarrow>
     (\<forall>k. 0 < k \<and> k < n \<and> (k - 1) div 2 \<noteq> i \<longrightarrow>
          GasPrice (q ! ((k - 1) div 2)) \<ge> GasPrice (q ! k)) \<and>
     (\<forall>k. 0 < k \<and> k < n \<and> (k - 1) div 2 = i \<and> 0 < i \<longrightarrow>
          GasPrice (q ! ((i - 1) div 2)) \<ge> GasPrice (q ! k))"

definition up_inv :: "MempoolTx list \<Rightarrow> nat \<Rightarrow> bool" where
  "up_inv q j \<longleftrightarrow>
     (\<forall>k. 0 < k \<and> k < length q \<and> k \<noteq> j \<longrightarrow>
          GasPrice (q ! ((k - 1) div 2)) \<ge> GasPrice (q ! k)) \<and>
     (\<forall>k. 0 < k \<and> k < length q \<and> (k - 1) div 2 = j \<and> 0 < j \<longrightarrow>
          GasPrice (q ! ((j - 1) div 2)) \<ge> GasPrice (q ! k))"

subsection \<open>Example pools\<close>

text \<open>
  In the examples every transaction has size 100, so that the gas price is the fee
  divided by 100, and the hash of a transaction is derived from its sender.
\<close>

definition pool_host :: MempoolHost where
  "pool_host =
     \<lparr>clock = 1700000000000000000, txSize = (\<lambda>tx. 100),
      txHashHex = (\<lambda>tx. ''hash-'' @ From tx)\<rparr>"

definition pool_tx :: "string \<Rightarrow> u64 \<Rightarrow> Transaction" where
  "pool_tx from fee = example_tx ''transfer'' from ''bob'' 10 fee 0"

definition add_all :: "MempoolHost \<Rightarrow> Mempool \<Rightarrow> Transaction list \<Rightarrow> Mempool" where
  "add_all host mp ts = foldl (\<lambda>m t. fst (AddTx host m t)) mp ts"

text \<open>A pool of capacity 3 after admitting gas prices 5, 1 and 3, in this order.\<close>

definition full_pool :: Mempool where
  "full_pool =
     add_all pool_host (NewMempool (DefaultMempoolConfig\<lparr>MaxSize := 3\<rparr>))
       [pool_tx ''a'' 500, pool_tx ''b'' 100, pool_tx ''c'' 300]"



section \<open>Properties of the reward halving\<close>

lemma drop_bit_word_le: "drop_bit n (w :: u64) \<le> w"
  unfolding word_le_nat_alt unat_drop_bit_eq by (simp add: drop_bit_eq_div)

lemma unat_inc_less: "i < (h::u64) \<Longrightarrow> unat (i + 1) = Suc (unat i)"
proof -
  assume "i < h"
  then have "unat i < unat h" by (simp add: word_less_nat_alt)
  moreover have "unat h < 2 ^ 64" using unsigned_less [of h, where ?'a = nat] by simp
  ultimately have "unat i + unat (1::u64) < 2 ^ LENGTH(64)" by simp
  then have "unat (i + 1) = unat i + unat (1::u64)"
    by (simp only: unat_add_lem)
  then show ?thesis by simp
qed

lemma halving_loop_closed:
  "i \<le> halvings \<Longrightarrow>
   max minR (halving_loop halvings minR i reward)
     = max minR (drop_bit (unat halvings - unat i) reward)"
proof (induction halvings minR i reward rule: halving_loop.induct)
  case (1 halvings minR i reward)
  show ?case
  proof (cases "i < halvings \<and> reward > minR")
    case True
    then have lt: "i < halvings" by simp
    then have le: "i + 1 \<le> halvings" by (simp add: inc_le)
    have ui: "unat (i + 1) = Suc (unat i)"
      using lt by (rule unat_inc_less)
    have ul: "unat i < unat halvings" using lt by (simp add: word_less_nat_alt)
    have "max minR (halving_loop halvings minR i reward)
        = max minR (halving_loop halvings minR (i + 1) (reward div 2))"
      using True by (subst halving_loop.simps) simp
    also have "\<dots> = max minR (drop_bit (unat halvings - unat (i + 1)) (reward div 2))"
      using "1.IH" [OF True le] .
    also have "\<dots> = max minR (drop_bit (unat halvings - unat i) reward)"
    proof -
      have "unat halvings - unat i = Suc (unat halvings - Suc (unat i))"
        using ul by simp
      then have "drop_bit (unat halvings - unat i) reward
          = drop_bit (unat halvings - Suc (unat i)) (reward div 2)"
        by (simp only: drop_bit_Suc)
      then show ?thesis
        by (simp only: ui)
    qed
    finally show ?thesis .
  next
    case False
    then have stop: "halving_loop halvings minR i reward = reward"
      by (subst halving_loop.simps) auto
    show ?thesis
    proof (cases "i < halvings")
      case True
      with False have "reward \<le> minR" by simp
      moreover have "drop_bit (unat halvings - unat i) reward \<le> reward"
        by (rule drop_bit_word_le)
      ultimately show ?thesis
        by (auto simp add: stop max_def)
    next
      case False
      with "1.prems" have "i = halvings" by simp
      then have "unat halvings - unat i = 0" by simp
      then show ?thesis by (simp only: stop drop_bit_0 id_apply)
    qed
  qed
qed

text \<open>
  C9. For every height \<open>h\<close>, \<open>CalculateBlockReward(h)\<close> equals the closed form
  \<open>max(min_reward, base_reward >> (h / halving_blocks))\<close>: the halving loop with its
  early stop at the floor computes exactly that value (and both are undefined when
  \<open>halving_blocks\<close> is zero).
\<close>

theorem CalculateBlockReward_closed_form:
  "CalculateBlockReward d h = reward_closed_form d h"
proof (cases "halving d = 0")
  case True
  then show ?thesis by (simp add: CalculateBlockReward_def reward_closed_form_def)
next
  case False
  let ?r = "halving_loop (h div halving d) (minReward d) 0 (baseReward d)"
  have "max (minReward d) ?r
      = max (minReward d) (drop_bit (unat (h div halving d) - unat (0::u64)) (baseReward d))"
    by (rule halving_loop_closed) simp
  moreover have "(if ?r < minReward d then minReward d else ?r) = max (minReward d) ?r"
    by (auto simp add: max_def)
  ultimately show ?thesis
    using False by (simp add: CalculateBlockReward_def reward_closed_form_def Let_def)
qed

section \<open>Properties of the state store\<close>

lemma Transfer_sender_missing:
  "accounts s from = None \<Longrightarrow> Transfer s from to asset amount = (s, Some ErrAccountNotFound)"
  by (simp add: Transfer_def)

lemma Transfer_insufficient:
  "accounts s from = Some sender \<Longrightarrow> lookup0 (Balances sender) asset < amount \<Longrightarrow>
   snd (Transfer s from to asset amount) = Some ErrInsufficientBalance"
  by (simp add: Transfer_def Let_def)

lemma Transfer_success:
  "accounts s from = Some sender \<Longrightarrow> \<not> lookup0 (Balances sender) asset < amount \<Longrightarrow>
   snd (Transfer s from to asset amount) = None \<and>
   dirty (fst (Transfer s from to asset amount)) from = Some True \<and>
   dirty (fst (Transfer s from to asset amount)) to = Some True"
  by (simp add: Transfer_def Let_def split: option.splits)

text \<open>
  C3. \<open>StateDB.Transfer\<close> is claimed to leave the store completely unchanged on any
  failure, in particular to create no receiver account. With sender \<open>alice\<close> holding
  5 GYDS and no account \<open>bob\<close>, \<open>Transfer(alice, bob, GYDS, 10)\<close> fails with
  InsufficientBalance, sets no dirty bit, and yet the store afterwards has an (empty)
  account \<open>bob\<close> that it did not have before: the receiver is inserted before the
  balance check.
\<close>

theorem Transfer_failure_creates_receiver:
  "accounts transfer_example ''bob'' = None \<and>
   snd (Transfer transfer_example ''alice'' ''bob'' ''GYDS'' 10) = Some ErrInsufficientBalance \<and>
   accounts (fst (Transfer transfer_example ''alice'' ''bob'' ''GYDS'' 10)) ''bob''
     = Some (NewAccount ''bob'') \<and>
   dirty (fst (Transfer transfer_example ''alice'' ''bob'' ''GYDS'' 10)) = Map.empty \<and>
   fst (Transfer transfer_example ''alice'' ''bob'' ''GYDS'' 10) \<noteq> transfer_example"
proof -
  let ?r = "Transfer transfer_example ''alice'' ''bob'' ''GYDS'' 10"
  have r: "?r = (transfer_example\<lparr>accounts := (accounts transfer_example)(''bob'' \<mapsto> NewAccount ''bob'')\<rparr>,
                 Some ErrInsufficientBalance)"
    by (simp add: Transfer_def transfer_example_def NewStateDB_def SetBalance_def
        NewAccount_def lookup0_def Let_def)
  have none: "accounts transfer_example ''bob'' = None"
    by (simp add: transfer_example_def NewStateDB_def)
  have "accounts (fst ?r) ''bob'' = Some (NewAccount ''bob'')"
    by (simp add: r)
  moreover have "dirty (fst ?r) = Map.empty"
    by (simp add: r) (simp add: transfer_example_def NewStateDB_def)
  moreover have "snd ?r = Some ErrInsufficientBalance"
    by (simp add: r)
  moreover have "fst ?r \<noteq> transfer_example"
  proof
    assume "fst ?r = transfer_example"
    then have "accounts (fst ?r) ''bob'' = accounts transfer_example ''bob''" by simp
    then show False using none by (simp add: r)
  qed
  ultimately show ?thesis using none by blast
qed

section \<open>Properties of block application\<close>

lemmas state_defs =
  GetAccount_def SetAccount_def NewStateDB_def SetBalance_def NewAccount_def GetBalance_def
  lookup0_def Copy_def IncrementNonce_def StateDB_GetBalance_def

lemma example_block_verifies: "Block_Verify example_host example_block = None"
  by (simp add: Block_Verify_def Validate_def example_block_def example_header_def
      example_host_def example_tx_def Verify_def CalculateTxRoot_def TxTypeBurn_def
      TxTypeTransfer_def)

lemma example_block_partial:
  "process_all example_state (Transactions example_block) = (s', e) \<Longrightarrow>
   e = Some ErrInsufficientFunds \<and>
   StateDB_GetBalance s' ''alice'' ''GYDS'' = 899 \<and>
   StateDB_GetBalance s' ''bob'' ''GYDS'' = 100 \<and>
   map_option acc_Nonce (accounts s' ''alice'') = Some 1"
  by (auto simp add: example_block_def processTransaction_def example_state_def
      example_tx_def state_defs Let_def)

lemma example_state_before:
  "StateDB_GetBalance example_state ''alice'' ''GYDS'' = 1000 \<and>
   StateDB_GetBalance example_state ''bob'' ''GYDS'' = 0 \<and>
   map_option acc_Nonce (accounts example_state ''alice'') = Some 0"
  by (simp add: example_state_def state_defs)

text \<open>
  C1. \<open>AddBlock\<close> is claimed to leave the state store unmodified whenever it returns an
  error. On the example chain (alice 1000 GYDS, bob 0), the block whose first transaction
  applies and whose second fails the balance check is rejected with the balance error and
  is not indexed, but the store keeps the first transaction's effect: alice 899 with
  nonce 1, bob 100.
\<close>

theorem AddBlock_error_keeps_partial_effects:
  "snd (AddBlock example_host example_chain example_block) = Some ErrInsufficientFunds \<and>
   blocks (fst (AddBlock example_host example_chain example_block)) = blocks example_chain \<and>
   StateDB_GetBalance (stateDB example_chain) ''alice'' ''GYDS'' = 1000 \<and>
   StateDB_GetBalance (stateDB example_chain) ''bob'' ''GYDS'' = 0 \<and>
   map_option acc_Nonce (accounts (stateDB example_chain) ''alice'') = Some 0 \<and>
   StateDB_GetBalance (stateDB (fst (AddBlock example_host example_chain example_block)))
     ''alice'' ''GYDS'' = 899 \<and>
   StateDB_GetBalance (stateDB (fst (AddBlock example_host example_chain example_block)))
     ''bob'' ''GYDS'' = 100 \<and>
   map_option acc_Nonce
     (accounts (stateDB (fst (AddBlock example_host example_chain example_block))) ''alice'')
     = Some 1"
proof -
  obtain s' e where r: "process_all example_state (Transactions example_block) = (s', e)"
    by (cases "process_all example_state (Transactions example_block)")
  note p = example_block_partial [OF r]
  have hd: "Height (Header example_block) = 1"
    and parent: "blocks example_chain (ParentHash (Header example_block)) = Some example_genesis"
    and hash: "headerHash example_host (Header example_block) = ''hash-of-block''"
    and fresh: "blocks example_chain ''hash-of-block'' = None"
    and st: "stateDB example_chain = example_state"
    by (simp_all add: example_block_def example_header_def example_chain_def example_host_def)
  have "AddBlock example_host example_chain example_block
      = (example_chain\<lparr>stateDB := s'\<rparr>, Some ErrInsufficientFunds)"
    using p by (simp add: AddBlock_def example_block_verifies hd parent hash fresh st r)
  then show ?thesis
    using p example_state_before by (simp add: st)
qed

text \<open>
  What \<open>processTransaction\<close> does when sender and receiver differ, for every transaction
  type: the sender pays amount and fee (modulo \<open>2 ^ 64\<close>) and its nonce goes up by one,
  the receiver (created if missing) gets the amount, every other account and every
  \<open>Staked\<close> field stay as they were.
\<close>

lemma processTransaction_ignores_Type:
  "processTransaction s (t\<lparr>Type := ty\<rparr>) = processTransaction s t"
  by (simp add: processTransaction_def Let_def split: option.split)

lemma processTransaction_effect:
  assumes "From t \<noteq> To t"
    and "accounts s (From t) = Some a"
    and "\<not> GetBalance a (Asset t) < Amount t + Fee t"
  shows "\<exists>s'. processTransaction s t = Inr s' \<and>
     accounts s' (From t) = Some (a\<lparr>Balances := (Balances a)(Asset t \<mapsto>
         GetBalance a (Asset t) - Amount t - Fee t), acc_Nonce := acc_Nonce a + 1\<rparr>) \<and>
     accounts s' (To t) = Some
       (let r = (case accounts s (To t) of None \<Rightarrow> NewAccount (To t) | Some r \<Rightarrow> r)
        in r\<lparr>Balances := (Balances r)(Asset t \<mapsto> GetBalance r (Asset t) + Amount t)\<rparr>) \<and>
     (\<forall>x. x \<noteq> From t \<and> x \<noteq> To t \<longrightarrow> accounts s' x = accounts s x)"
  using assms
  by (auto simp add: processTransaction_def GetAccount_def SetAccount_def Copy_def
      SetBalance_def IncrementNonce_def Let_def split: option.splits)

lemma burn_receiver_is_empty_address:
  "Verify t = None \<Longrightarrow> To t = [] \<Longrightarrow> From t \<noteq> To t \<and> Type t = TxTypeBurn"
  by (auto simp add: Verify_def split: if_splits)

lemma example_burn_credits_empty_address:
  "Verify example_burn = None \<and>
   (case processTransaction example_state example_burn of
      Inl e \<Rightarrow> False
    | Inr s' \<Rightarrow> StateDB_GetBalance s' [] ''GYDS'' = 100 \<and>
        StateDB_GetBalance s' ''alice'' ''GYDS'' = 899)"
  by (simp add: example_burn_def example_tx_def Verify_def TxTypeBurn_def TxTypeTransfer_def
      processTransaction_def example_state_def state_defs Let_def)

text \<open>
  C10. Every transaction is claimed to move its amount from the sender to the account
  named in \<open>to\<close>, debit the fee and increment the sender's nonce, whatever its type. A
  transfer from alice to alice (amount 100, fee 1) passes \<open>Verify\<close> and is applied without
  error, but alice ends with 1100 instead of 999 and her nonce stays 0: the receiver copy,
  taken before the sender was debited, is written back last and replaces the sender's
  update.
\<close>

theorem processTransaction_self_transfer:
  "Verify example_self_transfer = None \<and>
   StateDB_GetBalance example_state ''alice'' ''GYDS'' = 1000 \<and>
   map_option acc_Nonce (accounts example_state ''alice'') = Some 0 \<and>
   (case processTransaction example_state example_self_transfer of
      Inl e \<Rightarrow> False
    | Inr s' \<Rightarrow> StateDB_GetBalance s' ''alice'' ''GYDS'' = 1100 \<and>
        map_option acc_Nonce (accounts s' ''alice'') = Some 0)"
  by (simp add: example_self_transfer_def example_tx_def Verify_def TxTypeBurn_def
      TxTypeTransfer_def processTransaction_def example_state_def state_defs Let_def)

section \<open>Properties of slashing\<close>

lemma slash_example_fields:
  "SelfStake slash_example = 10 \<and> TotalStake slash_example = 1000 \<and>
   Delegations slash_example = [(''delegator'', 990)]"
  by (simp add: slash_example_def AddDelegation_def NewValidator_def delegation_of_def)

text \<open>
  C4. A slash is claimed to keep \<open>total_stake = self_stake + \<Sum> delegations\<close>. A validator
  with self-stake 10 and one delegation of 990 satisfies the invariant; slashing it by
  5 percent takes 50 from the total and 10 from the self-stake, but only
  \<open>990 * 40 / 1000 = 39\<close> instead of the remaining 40 from the delegation, because the
  divisor \<open>TotalStake - SelfStake\<close> is computed after \<open>SelfStake\<close> was set to 0. Afterwards
  the total is 950 while self-stake plus delegations is 951.
\<close>

theorem Slash_breaks_stake_invariant:
  "stake_invariant slash_example \<and>
   (case Slash 0 slash_example 5 ''double_sign'' 100 of
      None \<Rightarrow> False
    | Some (v', amount) \<Rightarrow>
        amount = 50 \<and> SelfStake v' = 0 \<and> Delegations v' = [(''delegator'', 951)] \<and>
        TotalStake v' = 950 \<and> \<not> stake_invariant v')"
  by (simp add: stake_invariant_def Slash_def slash_example_fields Let_def)

text \<open>
  C5. \<open>missed_blocks_counter\<close> is claimed to equal the number of \<open>false\<close> entries of the
  bitmap after every sequence of \<open>SignBlock\<close> calls, and on the new record. The new record
  of a keeper with window 10 has counter 0 and 10 \<open>false\<close> entries. After two misses, at
  heights 0 and 1, the counter is 1: the second call finds \<open>false\<close> in the never-written
  slot 1, takes it for an earlier miss and decrements the counter before incrementing
  it, although the bitmap still has 10 \<open>false\<close> entries and two misses were recorded.
\<close>

theorem SignBlock_counter_differs_from_bitmap:
  "MissedBlocksCounter (new_signing_info (NewSlashingKeeper example_params) ''validator'') = 0 \<and>
   count_false (SignedBlocksBitmap
     (new_signing_info (NewSlashingKeeper example_params) ''validator'')) = 10 \<and>
   (case two_misses of
      None \<Rightarrow> False
    | Some k \<Rightarrow>
        (case signingInfo k ''validator'' of
           None \<Rightarrow> False
         | Some info \<Rightarrow>
             MissedBlocksCounter info = 1 \<and> count_false (SignedBlocksBitmap info) = 10))"
  by code_simp

section \<open>Properties of the proposer selection\<close>

lemma example_engine_fields:
  "map val_Address (validatorList example_engine) = [''v3'', ''v1''] \<and>
   map TotalStake (validatorList example_engine) = [200, 100] \<and>
   map fst (validators example_engine) = [''v1'', ''v2'', ''v3''] \<and>
   totalStake example_engine = 350 \<and>
   spec_T (validatorList example_engine) = 300"
  by code_simp

lemma mset_insert_by_stake: "mset (insert_by_stake v xs) = add_mset v (mset xs)"
  by (induction xs) auto

lemma set_insert_by_stake: "set (insert_by_stake v xs) = insert v (set xs)"
  by (induction xs) auto

lemma sorted_insert_by_stake:
  "sorted_wrt (\<lambda>a b. TotalStake a \<ge> TotalStake b) xs \<Longrightarrow>
   sorted_wrt (\<lambda>a b. TotalStake a \<ge> TotalStake b) (insert_by_stake v xs)"
  by (induction xs) (auto simp add: set_insert_by_stake)

lemma sort_by_stake_sorts: "sorts_by_stake sort_by_stake"
proof -
  have "mset (sort_by_stake xs) = mset xs
      \<and> sorted_wrt (\<lambda>a b. TotalStake a \<ge> TotalStake b) (sort_by_stake xs)" for xs
    unfolding sort_by_stake_def
    by (induction xs) (simp_all add: mset_insert_by_stake sorted_insert_by_stake)
  then show ?thesis by (simp add: sorts_by_stake_def)
qed





lemma sorts_by_stake_mset: "sorts_by_stake srt \<Longrightarrow> mset (srt xs) = mset xs"
  by (simp add: sorts_by_stake_def)

lemma sorts_by_stake_sorted:
  "sorts_by_stake srt \<Longrightarrow> sorted_wrt (\<lambda>a b. TotalStake a \<ge> TotalStake b) (srt xs)"
  by (simp add: sorts_by_stake_def)

lemma sorts_by_stake_length: "sorts_by_stake srt \<Longrightarrow> length (srt xs) = length xs"
  by (rule mset_eq_length) (rule sorts_by_stake_mset)

lemma updateValidatorList_take:
  assumes "sorts_by_stake srt" and "length (validators e) < 2 ^ 32"
  shows "validatorList (updateValidatorList srt e)
     = take (unat (maxValidators e))
         (srt (filter (\<lambda>v. Active v \<and> TotalStake v \<ge> minStake e) (map snd (validators e))))"
proof -
  let ?l0 = "filter (\<lambda>v. Active v \<and> TotalStake v \<ge> minStake e) (map snd (validators e))"
  have "length (srt ?l0) = length ?l0"
    using assms(1) by (rule sorts_by_stake_length)
  also have "\<dots> \<le> length (validators e)"
    using length_filter_le [of _ "map snd (validators e)"] by simp
  finally have len: "length (srt ?l0) < 2 ^ 32" using assms(2) by simp
  then have u: "unat (of_nat (length (srt ?l0)) :: 32 word) = length (srt ?l0)"
    by (simp add: unat_of_nat)
  show ?thesis
  proof (cases "(of_nat (length (srt ?l0)) :: 32 word) > maxValidators e")
    case True
    then show ?thesis by (simp add: updateValidatorList_def Let_def)
  next
    case False
    then have "length (srt ?l0) \<le> unat (maxValidators e)"
      using u by (simp add: word_less_nat_alt not_less)
    then show ?thesis using False by (simp add: updateValidatorList_def Let_def)
  qed
qed


lemma take_drop_sorted_split:
  assumes "sorted_wrt (\<lambda>a b. TotalStake a \<ge> TotalStake b) xs"
  shows "\<forall>v\<in>set (take m xs). \<forall>w\<in>set (drop m xs). TotalStake w \<le> TotalStake v"
proof -
  have "sorted_wrt (\<lambda>a b. TotalStake a \<ge> TotalStake b) (take m xs @ drop m xs)"
    using assms by simp
  then show ?thesis unfolding sorted_wrt_append by blast
qed

lemma validatorList_characterisation:
  assumes srt: "sorts_by_stake srt" and len: "length (validators e0) < 2 ^ 32"
  shows "(let eligible = filter (\<lambda>v. Active v \<and> TotalStake v \<ge> minStake e0)
                           (map snd (validators e0));
              l = validatorList (updateValidatorList srt e0)
          in mset l \<subseteq># mset eligible \<and>
             length l = min (length eligible) (unat (maxValidators e0)) \<and>
             sorted_wrt (\<lambda>a b. TotalStake a \<ge> TotalStake b) l \<and>
             (\<forall>w. w \<in># mset eligible - mset l \<longrightarrow>
                  (\<forall>v\<in>set l. TotalStake w \<le> TotalStake v)))"
proof -
  define eligible where "eligible = filter (\<lambda>v. Active v \<and> TotalStake v \<ge> minStake e0)
                           (map snd (validators e0))"
  define m where "m = unat (maxValidators e0)"
  define l where "l = validatorList (updateValidatorList srt e0)"
  have l: "l = take m (srt eligible)"
    unfolding l_def m_def eligible_def by (rule updateValidatorList_take [OF srt len])
  have split: "mset eligible = mset l + mset (drop m (srt eligible))"
  proof -
    have "mset eligible = mset (take m (srt eligible) @ drop m (srt eligible))"
      using sorts_by_stake_mset [OF srt, of eligible] by simp
    then show ?thesis unfolding l by (simp only: mset_append)
  qed
  have 1: "mset l \<subseteq># mset eligible"
    unfolding split by simp
  have 2: "length l = min (length eligible) m"
    unfolding l by (simp add: sorts_by_stake_length [OF srt])
  have 3: "sorted_wrt (\<lambda>a b. TotalStake a \<ge> TotalStake b) l"
    unfolding l by (rule sorted_wrt_take) (rule sorts_by_stake_sorted [OF srt])
  have 4: "\<forall>w. w \<in># mset eligible - mset l \<longrightarrow> (\<forall>v\<in>set l. TotalStake w \<le> TotalStake v)"
  proof (intro allI impI ballI)
    fix w v
    assume "w \<in># mset eligible - mset l" and v: "v \<in> set l"
    then have "w \<in> set (drop m (srt eligible))"
      unfolding split by simp
    with v show "TotalStake w \<le> TotalStake v"
      using take_drop_sorted_split [OF sorts_by_stake_sorted [OF srt], of m eligible]
      unfolding l by blast
  qed
  show ?thesis
    using 1 2 3 4 unfolding Let_def eligible_def [symmetric] l_def [symmetric] m_def [symmetric]
    by blast
qed








lemma sort_by_stake_rev_sorts: "sorts_by_stake sort_by_stake_rev"
  using sort_by_stake_sorts by (simp add: sorts_by_stake_def sort_by_stake_rev_def)








text \<open>
  Where two eligible validators have the same stake, the list depends on how
  \<open>sort.Slice\<close> places them, and so does the leader: the code compares stakes only.
\<close>

lemma SelectLeader_tie_depends_on_sort:
  "sorts_by_stake sort_by_stake \<and> sorts_by_stake sort_by_stake_rev \<and>
   map TotalStake (map snd (validators tie_engine)) = [100, 100] \<and>
   leader_of (SelectLeader (updateValidatorList sort_by_stake tie_engine) 0) = Some ''v2'' \<and>
   leader_of (SelectLeader (updateValidatorList sort_by_stake_rev tie_engine) 0) = Some ''v1''"
proof -
  have "map TotalStake (map snd (validators tie_engine)) = [100, 100] \<and>
   leader_of (SelectLeader (updateValidatorList sort_by_stake tie_engine) 0) = Some ''v2'' \<and>
   leader_of (SelectLeader (updateValidatorList sort_by_stake_rev tie_engine) 0) = Some ''v1''"
    by code_simp
  then show ?thesis using sort_by_stake_sorts sort_by_stake_rev_sorts by simp
qed

text \<open>
  Two registrations of \<open>2 ^ 63\<close> each leave \<open>totalStake = 0\<close> and a list of two
  validators: \<open>SelectLeader\<close> divides by zero.
\<close>

lemma SelectLeader_wrapped_total_panics:
  "length (validatorList wrapped_engine) = 2 \<and> totalStake wrapped_engine = 0 \<and>
   SelectLeader wrapped_engine 7 = Inl PanicDivideByZero"
  by code_simp



section \<open>Properties of the mempool\<close>

text \<open>
  C6. At capacity, \<open>AddTx\<close> is claimed to evict the entry of minimum gas price exactly
  when that minimum is below the new gas price. The pool of capacity 3 holds gas prices
  5, 1 and 3, and its queue is the slice \<open>[5, 1, 3]\<close>. A new transaction of gas price 2
  is rejected with MempoolFull although the minimum, 1, is lower; a new transaction of
  gas price 4 is admitted, but the entry evicted is the one of gas price 3 and the
  entry of gas price 1 stays. \<open>evictLowest\<close> takes the last element of the heap's slice
  for the lowest.
\<close>

theorem AddTx_evicts_last_not_lowest:
  "int (length (txs full_pool)) = MaxSize (config full_pool) \<and>
   map GasPrice (queue full_pool) = [5, 1, 3] \<and>
   map (GasPrice \<circ> snd) (txs full_pool) = [5, 1, 3] \<and>
   snd (AddTx pool_host full_pool (pool_tx ''d'' 200)) = Some ErrMempoolFull \<and>
   snd (AddTx pool_host full_pool (pool_tx ''d'' 400)) = None \<and>
   map (GasPrice \<circ> snd) (txs (fst (AddTx pool_host full_pool (pool_tx ''d'' 400)))) = [5, 1, 4]"
  by code_simp


subsection \<open>The queue is a heap, and reaping yields descending gas prices\<close>

lemma down_unfold:
  "down q i n =
     (if 2 * i + 1 \<ge> n then q
      else if \<not> Less q (larger_child q i n) i then q
      else down (Swap q i (larger_child q i n)) (larger_child q i n) n)"
  by (subst down.simps) (simp add: Let_def larger_child_def)

lemma Swap_nth:
  "i < length q \<Longrightarrow> j < length q \<Longrightarrow>
   Swap q i j ! k = (if k = j then q ! i else if k = i then q ! j else q ! k)"
  by (simp add: Swap_def nth_list_update)

lemma length_Swap [simp]: "length (Swap q i j) = length q"
  by (simp add: Swap_def)

lemma mset_Swap: "i < length q \<Longrightarrow> j < length q \<Longrightarrow> mset (Swap q i j) = mset q"
  unfolding Swap_def by (rule mset_swap)

lemma down_inv_stop_leaf:
  assumes "down_inv q i n" and "2 * i + 1 \<ge> n"
  shows "heap_upto q n"
  unfolding heap_upto_def
proof (intro allI impI)
  fix j :: nat assume j: "0 < j \<and> j < n"
  then have "(j - 1) div 2 \<noteq> i" using assms(2) by presburger
  then show "GasPrice (q ! j) \<le> GasPrice (q ! ((j - 1) div 2))"
    using assms(1) j unfolding down_inv_def by blast
qed

lemma larger_child_props:
  assumes "2 * i + 1 < n"
  shows "larger_child q i n < n" and "i < larger_child q i n"
    and "(larger_child q i n - 1) div 2 = i"
  using assms by (auto simp add: larger_child_def)

lemma larger_child_ge:
  assumes "0 < k" "k < n" "(k - 1) div 2 = i"
  shows "GasPrice (q ! k) \<le> GasPrice (q ! larger_child q i n)"
proof -
  have "k = 2 * i + 1 \<or> k = 2 * i + 2" using assms by presburger
  then show ?thesis
    using assms(2) by (auto simp add: larger_child_def Less_def not_less)
qed

lemma down_inv_stop_ge:
  assumes inv: "down_inv q i n"
    and stop: "\<not> Less q (larger_child q i n) i"
  shows "heap_upto q n"
  unfolding heap_upto_def
proof (intro allI impI)
  fix k :: nat assume k: "0 < k \<and> k < n"
  show "GasPrice (q ! k) \<le> GasPrice (q ! ((k - 1) div 2))"
  proof (cases "(k - 1) div 2 = i")
    case False
    then show ?thesis using inv k unfolding down_inv_def by blast
  next
    case True
    have "GasPrice (q ! larger_child q i n) \<le> GasPrice (q ! i)"
      using stop by (simp add: Less_def not_less)
    moreover have "GasPrice (q ! k) \<le> GasPrice (q ! larger_child q i n)"
      using larger_child_ge [of k n i q] k True by simp
    ultimately show ?thesis using True by simp
  qed
qed

lemma down_inv_step:
  assumes inv: "down_inv q i n"
    and n: "n \<le> length q"
    and j1: "2 * i + 1 < n"
    and go: "Less q (larger_child q i n) i"
  shows "down_inv (Swap q i (larger_child q i n)) (larger_child q i n) n"
proof -
  define j where "j = larger_child q i n"
  have jn: "j < n" and ij: "i < j" and pj: "(j - 1) div 2 = i"
    unfolding j_def using larger_child_props [OF j1] by auto
  have il: "i < length q" and jl: "j < length q" using jn ij n by auto
  note sw = Swap_nth [OF il jl]
  have gt: "GasPrice (q ! i) \<le> GasPrice (q ! j)"
    using go by (simp add: Less_def j_def)
  have sib: "GasPrice (q ! k) \<le> GasPrice (q ! j)"
    if "0 < k" "k < n" "(k - 1) div 2 = i" for k
    unfolding j_def using that by (rule larger_child_ge)
  have c1: "GasPrice ((Swap q i j) ! k) \<le> GasPrice ((Swap q i j) ! ((k - 1) div 2))"
    if k: "0 < k" "k < n" "(k - 1) div 2 \<noteq> j" for k
  proof (cases "(k - 1) div 2 = i")
    case True
    then have "(Swap q i j) ! ((k - 1) div 2) = q ! j"
      using ij by (simp add: sw)
    moreover have "GasPrice ((Swap q i j) ! k) \<le> GasPrice (q ! j)"
    proof (cases "k = j")
      case True then show ?thesis using gt by (simp add: sw)
    next
      case False
      moreover have "k \<noteq> i" using True k(1) by presburger
      ultimately show ?thesis using sib [OF k(1,2) True] by (simp add: sw)
    qed
    ultimately show ?thesis by simp
  next
    case False
    note pk = False
    show ?thesis
    proof (cases "k = i")
      case True
      then have i0: "0 < i" using k(1) by simp
      have "(i - 1) div 2 < i" using i0 by presburger
      then have "(Swap q i j) ! ((i - 1) div 2) = q ! ((i - 1) div 2)"
        using ij by (simp add: sw)
      moreover have "(Swap q i j) ! i = q ! j" using ij by (simp add: sw)
      moreover have "GasPrice (q ! j) \<le> GasPrice (q ! ((i - 1) div 2))"
        using inv jn ij pj i0 unfolding down_inv_def by auto
      ultimately show ?thesis using True by simp
    next
      case False
      have kj: "k \<noteq> j" using pk pj by auto
      have "(Swap q i j) ! k = q ! k" using False kj by (simp add: sw)
      moreover have "(Swap q i j) ! ((k - 1) div 2) = q ! ((k - 1) div 2)"
        using pk k(3) by (simp add: sw)
      moreover have "GasPrice (q ! k) \<le> GasPrice (q ! ((k - 1) div 2))"
        using inv k(1,2) pk unfolding down_inv_def by blast
      ultimately show ?thesis by simp
    qed
  qed
  have c2: "GasPrice ((Swap q i j) ! k) \<le> GasPrice ((Swap q i j) ! ((j - 1) div 2))"
    if k: "0 < k" "k < n" "(k - 1) div 2 = j" for k
  proof -
    have kgt: "j < k" using k(1,3) by presburger
    then have "(Swap q i j) ! k = q ! k" using ij by (simp add: sw)
    moreover have "(Swap q i j) ! ((j - 1) div 2) = q ! j" using pj ij by (simp add: sw)
    moreover have "GasPrice (q ! k) \<le> GasPrice (q ! ((k - 1) div 2))"
      using inv k ij unfolding down_inv_def by auto
    ultimately show ?thesis using k(3) by simp
  qed
  have "down_inv (Swap q i j) j n"
    unfolding down_inv_def using c1 c2 ij by blast
  then show ?thesis by (simp add: j_def)
qed

lemma down_heap:
  "down_inv q i n \<Longrightarrow> n \<le> length q \<Longrightarrow> heap_upto (down q i n) n"
proof (induction "n - i" arbitrary: q i rule: less_induct)
  case less
  show ?case
  proof (cases "2 * i + 1 \<ge> n")
    case True
    then have "down q i n = q" by (subst down_unfold) simp
    then show ?thesis using down_inv_stop_leaf [OF less.prems(1) True] by simp
  next
    case False
    then have j1: "2 * i + 1 < n" by simp
    show ?thesis
    proof (cases "Less q (larger_child q i n) i")
      case False
      then have "down q i n = q"
        using j1 by (subst down_unfold) simp
      then show ?thesis
        using down_inv_stop_ge [OF less.prems(1) False] by simp
    next
      case True
      then have eq: "down q i n = down (Swap q i (larger_child q i n)) (larger_child q i n) n"
        using j1 by (subst down_unfold) simp
      have inv': "down_inv (Swap q i (larger_child q i n)) (larger_child q i n) n"
        by (rule down_inv_step [OF less.prems(1,2) j1 True])
      have "n - larger_child q i n < n - i"
        using larger_child_props [OF j1, of q] by linarith
      from less.hyps [OF this inv'] less.prems(2)
      show ?thesis by (simp add: eq)
    qed
  qed
qed

lemma down_props:
  "n \<le> length q \<Longrightarrow>
   length (down q i n) = length q \<and> mset (down q i n) = mset q \<and>
   (\<forall>k. n \<le> k \<longrightarrow> down q i n ! k = q ! k)"
proof (induction "n - i" arbitrary: q i rule: less_induct)
  case less
  show ?case
  proof (cases "2 * i + 1 \<ge> n \<or> \<not> Less q (larger_child q i n) i")
    case True
    then have "down q i n = q" by (subst down_unfold) auto
    then show ?thesis by simp
  next
    case False
    then have j1: "2 * i + 1 < n" and go: "Less q (larger_child q i n) i" by auto
    define j where "j = larger_child q i n"
    have jn: "j < n" and ij: "i < j"
      unfolding j_def using larger_child_props [OF j1] by auto
    have il: "i < length q" and jl: "j < length q" using jn ij less.prems by auto
    have eq: "down q i n = down (Swap q i j) j n"
      using j1 go by (subst down_unfold) (simp add: j_def)
    have "n - j < n - i" using jn ij by linarith
    from less.hyps [OF this, of "Swap q i j"] less.prems
    have ih: "length (down (Swap q i j) j n) = length q"
      "mset (down (Swap q i j) j n) = mset (Swap q i j)"
      "\<forall>k. n \<le> k \<longrightarrow> down (Swap q i j) j n ! k = Swap q i j ! k"
      by simp_all
    have "\<forall>k. n \<le> k \<longrightarrow> Swap q i j ! k = q ! k"
      using jn ij by (simp add: Swap_nth [OF il jl])
    then show ?thesis
      using ih by (simp add: eq mset_Swap [OF il jl])
  qed
qed

lemma heap_root_max:
  "heap_upto q n \<Longrightarrow> j < n \<Longrightarrow> GasPrice (q ! j) \<le> GasPrice (q ! 0)"
proof (induction j rule: less_induct)
  case (less j)
  show ?case
  proof (cases "j = 0")
    case True then show ?thesis by simp
  next
    case False
    then have p: "(j - 1) div 2 < j" by presburger
    have "GasPrice (q ! j) \<le> GasPrice (q ! ((j - 1) div 2))"
      using less.prems False unfolding heap_upto_def by simp
    moreover have "GasPrice (q ! ((j - 1) div 2)) \<le> GasPrice (q ! 0)"
      using less.IH [OF p less.prems(1)] p less.prems(2) by simp
    ultimately show ?thesis by simp
  qed
qed

lemma heap_Pop_correct:
  assumes h: "heap_ok q" and ne: "q \<noteq> []" and pop: "heap_Pop q = (x, q')"
  shows "x = q ! 0" and "heap_ok q'" and "mset q = add_mset x (mset q')"
    and "\<forall>y\<in>set q. GasPrice y \<le> GasPrice x"
proof -
  define n where "n = length q - 1"
  define d where "d = down (Swap q 0 n) 0 n"
  have nl: "n < length q" and ln: "length q = Suc n" using ne by (simp_all add: n_def)
  have zl: "0 < length q" using ne by simp
  note sw = Swap_nth [OF zl nl]
  have x: "x = d ! n" and q': "q' = take n d"
    using pop by (simp_all add: heap_Pop_def Let_def n_def d_def)
  have nle: "n \<le> length (Swap q 0 n)" using nl by simp
  note dp = down_props [OF nle, of 0, folded d_def]
  have dlen: "length d = Suc n" using dp ln by simp
  have inv: "down_inv (Swap q 0 n) 0 n"
    unfolding down_inv_def
  proof (intro conjI allI impI)
    fix k :: nat assume k: "0 < k \<and> k < n \<and> (k - 1) div 2 \<noteq> 0"
    then have "(k - 1) div 2 < n" by presburger
    then have "Swap q 0 n ! ((k - 1) div 2) = q ! ((k - 1) div 2)"
      using k by (simp add: sw)
    moreover have "Swap q 0 n ! k = q ! k" using k by (simp add: sw)
    moreover have "GasPrice (q ! k) \<le> GasPrice (q ! ((k - 1) div 2))"
      using h k nl unfolding heap_ok_def heap_upto_def by simp
    ultimately show "GasPrice (Swap q 0 n ! k) \<le> GasPrice (Swap q 0 n ! ((k - 1) div 2))"
      by simp
  next
    fix k :: nat assume "0 < k \<and> k < n \<and> (k - 1) div 2 = 0 \<and> (0::nat) < 0"
    then show "GasPrice (Swap q 0 n ! k) \<le> GasPrice (Swap q 0 n ! ((0 - 1) div 2))"
      by simp
  qed
  have hd: "heap_upto d n"
    unfolding d_def by (rule down_heap [OF inv nle])
  have "d ! n = Swap q 0 n ! n" using dp by simp
  also have "\<dots> = q ! 0" by (simp add: sw)
  finally show x0: "x = q ! 0" by (simp add: x)
  show "heap_ok q'"
    unfolding heap_ok_def heap_upto_def
  proof (intro allI impI)
    fix j :: nat assume j: "0 < j \<and> j < length q'"
    then have jn: "j < n" by (simp add: q' dlen)
    then have "(j - 1) div 2 < n" by presburger
    then show "GasPrice (q' ! j) \<le> GasPrice (q' ! ((j - 1) div 2))"
      using hd j jn unfolding heap_upto_def by (simp add: q')
  qed
  have "d = take n d @ [d ! n]"
    using dlen by (simp add: take_Suc_conv_app_nth [symmetric])
  then have "mset d = add_mset (d ! n) (mset (take n d))"
    by (metis mset.simps(2) mset_append union_mset_add_mset_right add.right_neutral mset.simps(1) add_mset_add_single)
  moreover have "mset d = mset q" using dp by (simp add: mset_Swap [OF zl nl])
  ultimately show "mset q = add_mset x (mset q')" by (simp add: x q')
  show "\<forall>y\<in>set q. GasPrice y \<le> GasPrice x"
  proof
    fix y assume "y \<in> set q"
    then obtain j where "j < length q" "y = q ! j" by (auto simp add: in_set_conv_nth)
    then show "GasPrice y \<le> GasPrice x"
      using heap_root_max [of q "length q" j] h by (simp add: heap_ok_def x0)
  qed
qed

lemma reap_loop_sorted:
  assumes "heap_ok q"
    and "sorted_wrt (\<lambda>a b. GasPrice a \<ge> GasPrice b) out"
    and "\<forall>x\<in>set out. \<forall>y\<in>set q. GasPrice y \<le> GasPrice x"
    and "reap_loop t maxAge maxTxs out txmap q = (out', txmap', q')"
  shows "sorted_wrt (\<lambda>a b. GasPrice a \<ge> GasPrice b) out' \<and> heap_ok q' \<and>
         (\<forall>x\<in>set out'. \<forall>y\<in>set q'. GasPrice y \<le> GasPrice x)"
  using assms
proof (induction "length q" arbitrary: q out txmap rule: less_induct)
  case less
  show ?case
  proof (cases "int (length out) < maxTxs \<and> length q > 0")
    case False
    then have "reap_loop t maxAge maxTxs out txmap q = (out, txmap, q)"
      by (subst reap_loop.simps) auto
    then show ?thesis using less.prems by simp
  next
    case True
    then have ne: "q \<noteq> []" by simp
    obtain mtx q1 where pop: "heap_Pop q = (mtx, q1)" by (cases "heap_Pop q")
    note pc = heap_Pop_correct [OF less.prems(1) ne pop]
    have len: "length q1 < length q"
      using pc(3) ne by (metis size_mset size_add_mset lessI)
    have sub: "set q1 \<subseteq> set q"
      using pc(3) by (metis set_mset_mset set_mset_add_mset_insert subset_insertI)
    have mq: "mtx \<in> set q"
      using pc(3) by (metis set_mset_mset union_single_eq_member)
    have inv1: "\<forall>x\<in>set out. \<forall>y\<in>set q1. GasPrice y \<le> GasPrice x"
      using less.prems(3) sub by blast
    show ?thesis
    proof (cases "t - AddedAt mtx > maxAge")
      case True
      then have "reap_loop t maxAge maxTxs out txmap q
          = reap_loop t maxAge maxTxs out (AList.delete (Hash mtx) txmap) q1"
        using \<open>int (length out) < maxTxs \<and> length q > 0\<close> pop
        by (subst reap_loop.simps) simp
      with less.prems(4)
      have r: "reap_loop t maxAge maxTxs out (AList.delete (Hash mtx) txmap) q1 = (out', txmap', q')"
        by simp
      show ?thesis
        by (rule less.hyps [OF len pc(2) less.prems(2) inv1 r])
    next
      case False
      then have "reap_loop t maxAge maxTxs out txmap q
          = reap_loop t maxAge maxTxs (out @ [mtx]) txmap q1"
        using \<open>int (length out) < maxTxs \<and> length q > 0\<close> pop
        by (subst reap_loop.simps) simp
      with less.prems(4)
      have r: "reap_loop t maxAge maxTxs (out @ [mtx]) txmap q1 = (out', txmap', q')"
        by simp
      have s: "sorted_wrt (\<lambda>a b. GasPrice a \<ge> GasPrice b) (out @ [mtx])"
        using less.prems(2,3) mq by (simp add: sorted_wrt_append)
      have inv2: "\<forall>x\<in>set (out @ [mtx]). \<forall>y\<in>set q1. GasPrice y \<le> GasPrice x"
        using inv1 pc(4) sub by auto
      show ?thesis
        by (rule less.hyps [OF len pc(2) s inv2 r])
    qed
  qed
qed

lemma up_unfold:
  "up q j =
     (if j = 0 then q
      else if \<not> Less q j ((j - 1) div 2) then q
      else up (Swap q ((j - 1) div 2) j) ((j - 1) div 2))"
  by (subst up.simps) (simp add: Let_def)

lemma up_inv_stop:
  assumes "up_inv q j" and "j = 0 \<or> \<not> Less q j ((j - 1) div 2)"
  shows "heap_ok q"
  unfolding heap_ok_def heap_upto_def
proof (intro allI impI)
  fix k :: nat assume k: "0 < k \<and> k < length q"
  show "GasPrice (q ! k) \<le> GasPrice (q ! ((k - 1) div 2))"
  proof (cases "k = j")
    case True
    then show ?thesis using assms(2) k by (auto simp add: Less_def not_less)
  next
    case False
    then show ?thesis using assms(1) k unfolding up_inv_def by blast
  qed
qed

lemma up_inv_step:
  assumes inv: "up_inv q j" and jl: "j < length q" and j0: "0 < j"
    and go: "Less q j ((j - 1) div 2)"
  shows "up_inv (Swap q ((j - 1) div 2) j) ((j - 1) div 2)"
proof -
  define i where "i = (j - 1) div 2"
  have ij: "i < j" unfolding i_def using j0 by presburger
  have il: "i < length q" using ij jl by simp
  note sw = Swap_nth [OF il jl]
  have gt: "GasPrice (q ! i) \<le> GasPrice (q ! j)"
    using go by (simp add: Less_def i_def)
  have pj: "(j - 1) div 2 = i" by (simp add: i_def)
  have pi: "GasPrice (q ! i) \<le> GasPrice (q ! ((i - 1) div 2))" if "0 < i"
    using inv that il ij unfolding up_inv_def by auto
  have c1: "GasPrice ((Swap q i j) ! k) \<le> GasPrice ((Swap q i j) ! ((k - 1) div 2))"
    if k: "0 < k" "k < length q" "k \<noteq> i" for k
  proof (cases "k = j")
    case True
    then show ?thesis using gt ij pj by (simp add: sw)
  next
    case False
    note kj = False
    have kk: "(Swap q i j) ! k = q ! k" using k(3) kj by (simp add: sw)
    have old: "GasPrice (q ! k) \<le> GasPrice (q ! ((k - 1) div 2))"
      using inv k(1,2) kj unfolding up_inv_def by blast
    show ?thesis
    proof (cases "(k - 1) div 2 = i")
      case True
      then have "(Swap q i j) ! ((k - 1) div 2) = q ! j" using ij by (simp add: sw)
      then show ?thesis using kk old True gt by simp
    next
      case False
      note pki = False
      show ?thesis
      proof (cases "(k - 1) div 2 = j")
        case True
        then have "(Swap q i j) ! ((k - 1) div 2) = q ! i" by (simp add: sw)
        moreover have "GasPrice (q ! k) \<le> GasPrice (q ! i)"
          using inv k(1,2) True j0 unfolding up_inv_def i_def by blast
        ultimately show ?thesis using kk by simp
      next
        case False
        then have "(Swap q i j) ! ((k - 1) div 2) = q ! ((k - 1) div 2)"
          using pki by (simp add: sw)
        then show ?thesis using kk old by simp
      qed
    qed
  qed
  have c2: "GasPrice ((Swap q i j) ! k) \<le> GasPrice ((Swap q i j) ! ((i - 1) div 2))"
    if k: "0 < k" "k < length q" "(k - 1) div 2 = i" "0 < i" for k
  proof -
    have "(i - 1) div 2 < i" using k(4) by presburger
    then have p: "(Swap q i j) ! ((i - 1) div 2) = q ! ((i - 1) div 2)"
      using ij by (simp add: sw)
    have ki: "k \<noteq> i" using k(1,3) by presburger
    show ?thesis
    proof (cases "k = j")
      case True
      then show ?thesis using p pi [OF k(4)] by (simp add: sw)
    next
      case False
      then have "(Swap q i j) ! k = q ! k" using ki by (simp add: sw)
      moreover have "GasPrice (q ! k) \<le> GasPrice (q ! i)"
        using inv k(1,2,3) False unfolding up_inv_def by auto
      ultimately show ?thesis using p pi [OF k(4)] by simp
    qed
  qed
  have "up_inv (Swap q i j) i"
    unfolding up_inv_def using c1 c2 by simp
  then show ?thesis by (simp add: i_def)
qed

lemma up_heap: "up_inv q j \<Longrightarrow> j < length q \<Longrightarrow> heap_ok (up q j)"
proof (induction j arbitrary: q rule: less_induct)
  case (less j)
  show ?case
  proof (cases "j = 0 \<or> \<not> Less q j ((j - 1) div 2)")
    case True
    then have "up q j = q" by (subst up_unfold) auto
    then show ?thesis using up_inv_stop [OF less.prems(1) True] by simp
  next
    case False
    then have j0: "0 < j" and go: "Less q j ((j - 1) div 2)" by auto
    have eq: "up q j = up (Swap q ((j - 1) div 2) j) ((j - 1) div 2)"
      using j0 go by (subst up_unfold) simp
    have lt: "(j - 1) div 2 < j" using j0 by presburger
    have "heap_ok (up (Swap q ((j - 1) div 2) j) ((j - 1) div 2))"
      using less.IH [OF lt up_inv_step [OF less.prems(1,2) j0 go]] lt less.prems(2) by simp
    then show ?thesis by (simp add: eq)
  qed
qed

lemma up_mset: "j < length q \<Longrightarrow> mset (up q j) = mset q"
proof (induction j arbitrary: q rule: less_induct)
  case (less j)
  show ?case
  proof (cases "j = 0 \<or> \<not> Less q j ((j - 1) div 2)")
    case True
    then have "up q j = q" by (subst up_unfold) auto
    then show ?thesis by simp
  next
    case False
    then have j0: "0 < j" and go: "Less q j ((j - 1) div 2)" by auto
    have eq: "up q j = up (Swap q ((j - 1) div 2) j) ((j - 1) div 2)"
      using j0 go by (subst up_unfold) simp
    have lt: "(j - 1) div 2 < j" using j0 by presburger
    then have il: "(j - 1) div 2 < length q" using less.prems by simp
    have "mset (up (Swap q ((j - 1) div 2) j) ((j - 1) div 2)) = mset (Swap q ((j - 1) div 2) j)"
      using less.IH [OF lt, of "Swap q ((j - 1) div 2) j"] il by simp
    then show ?thesis using mset_Swap [OF il less.prems] by (simp add: eq)
  qed
qed

lemma heap_Push_heap: "heap_ok q \<Longrightarrow> heap_ok (heap_Push q x)"
proof -
  assume h: "heap_ok q"
  have "up_inv (q @ [x]) (length q)"
    unfolding up_inv_def
  proof (intro conjI allI impI)
    fix k :: nat assume k: "0 < k \<and> k < length (q @ [x]) \<and> k \<noteq> length q"
    then have kl: "k < length q" by simp
    then have "(k - 1) div 2 < length q" by presburger
    then show "GasPrice ((q @ [x]) ! k) \<le> GasPrice ((q @ [x]) ! ((k - 1) div 2))"
      using h k kl unfolding heap_ok_def heap_upto_def by (simp add: nth_append)
  next
    fix k :: nat
    assume k: "0 < k \<and> k < length (q @ [x]) \<and> (k - 1) div 2 = length q \<and> 0 < length q"
    then have "(k - 1) div 2 < k" by presburger
    with k have False by simp
    then show "GasPrice ((q @ [x]) ! k) \<le> GasPrice ((q @ [x]) ! ((length q - 1) div 2))" ..
  qed
  then have "heap_ok (up (q @ [x]) (length q))"
    by (rule up_heap) simp
  then show ?thesis by (simp add: heap_Push_def)
qed

lemma heap_Push_mset: "mset (heap_Push q x) = add_mset x (mset q)"
  by (simp add: heap_Push_def up_mset)

lemma heap_ok_Nil: "heap_ok []"
  by (simp add: heap_ok_def heap_upto_def)

lemma foldl_heap_Push_heap: "heap_ok q \<Longrightarrow> heap_ok (foldl heap_Push q xs)"
  by (induction xs arbitrary: q) (simp_all add: heap_Push_heap)

lemma readd_heap: "heap_ok q \<Longrightarrow> heap_ok (readd host txmap q ts)"
  by (induction ts arbitrary: q) (simp_all add: heap_Push_heap split: option.splits)

lemma rebuildQueue_heap: "heap_ok (queue (rebuildQueue mp))"
  by (simp add: rebuildQueue_def foldl_heap_Push_heap heap_ok_Nil)

lemma evictLowest_heap:
  "evictLowest mp g = (m, b) \<Longrightarrow> heap_ok (queue mp) \<Longrightarrow> heap_ok (queue m)"
  by (auto simp add: evictLowest_def Let_def rebuildQueue_heap split: if_splits)

lemma AddTx_heap: "heap_ok (queue mp) \<Longrightarrow> heap_ok (queue (fst (AddTx host mp tx)))"
  by (auto simp add: AddTx_def Let_def heap_Push_heap
      split: option.splits prod.splits if_splits dest: evictLowest_heap)

lemma reaped_sorted:
  assumes "heap_ok (queue mp)"
  shows "sorted_wrt (\<lambda>a b. GasPrice a \<ge> GasPrice b) (reaped host mp maxTxs)"
proof -
  define m where "m = (if maxTxs \<le> 0 then MaxSize (config mp) else maxTxs)"
  obtain out txmap q where
    r: "reap_loop (clock host) (MaxTxAge (config mp)) m [] (txs mp) (queue mp) = (out, txmap, q)"
    by (cases "reap_loop (clock host) (MaxTxAge (config mp)) m [] (txs mp) (queue mp)")
  have "sorted_wrt (\<lambda>a b. GasPrice a \<ge> GasPrice b) out"
    using reap_loop_sorted [OF assms _ _ r] by simp
  then show ?thesis by (simp add: reaped_def m_def [symmetric] r)
qed

lemma ReapMaxTxs_reaped: "fst (ReapMaxTxs host mp maxTxs) = map Tx (reaped host mp maxTxs)"
  by (simp add: ReapMaxTxs_def reaped_def Let_def split: prod.splits)

lemma ReapMaxTxs_heap:
  assumes "heap_ok (queue mp)"
  shows "heap_ok (queue (snd (ReapMaxTxs host mp maxTxs)))"
proof -
  define m where "m = (if maxTxs \<le> 0 then MaxSize (config mp) else maxTxs)"
  obtain out txmap q where
    r: "reap_loop (clock host) (MaxTxAge (config mp)) m [] (txs mp) (queue mp) = (out, txmap, q)"
    by (cases "reap_loop (clock host) (MaxTxAge (config mp)) m [] (txs mp) (queue mp)")
  have "heap_ok q"
    using reap_loop_sorted [OF assms _ _ r] by simp
  then have "heap_ok (readd host txmap q (map Tx out))" by (rule readd_heap)
  then show ?thesis by (simp add: ReapMaxTxs_def Let_def m_def [symmetric] r)
qed

lemma pool_reachable_heap: "pool_reachable mp \<Longrightarrow> heap_ok (queue mp)"
proof (induction rule: pool_reachable.induct)
  case (new cfg)
  then show ?case by (simp add: NewMempool_def heap_ok_Nil)
next
  case (add mp host tx)
  then show ?case by (simp add: AddTx_heap)
next
  case (remove mp hash)
  then show ?case by (simp add: RemoveTx_def)
next
  case (reap mp host maxTxs)
  then show ?case by (simp add: ReapMaxTxs_heap)
next
  case (update mp host confirmedTxs)
  then show ?case by (simp add: Update_def rebuildQueue_heap)
next
  case (cleanup mp host)
  then show ?case by (simp add: cleanup_def rebuildQueue_heap)
qed

text \<open>
  The same order, pair by pair: of two collected entries, the one with the strictly
  higher gas price is at the lower position.
\<close>

lemma ReapMaxTxs_higher_price_first:
  assumes "pool_reachable mp"
  shows "fst (ReapMaxTxs host mp maxTxs) = map Tx (reaped host mp maxTxs) \<and>
         (\<forall>i j. i < length (reaped host mp maxTxs) \<and> j < length (reaped host mp maxTxs) \<and>
                GasPrice (reaped host mp maxTxs ! i) > GasPrice (reaped host mp maxTxs ! j)
                \<longrightarrow> i < j)"
proof -
  have s: "sorted_wrt (\<lambda>a b. GasPrice a \<ge> GasPrice b) (reaped host mp maxTxs)"
    by (rule reaped_sorted [OF pool_reachable_heap [OF assms]])
  have "i < j" if "i < length (reaped host mp maxTxs)" "j < length (reaped host mp maxTxs)"
    "GasPrice (reaped host mp maxTxs ! i) > GasPrice (reaped host mp maxTxs ! j)" for i j
  proof (rule ccontr)
    assume "\<not> i < j"
    then have "j < i \<or> j = i" by auto
    then show False
    proof
      assume "j < i"
      then have "GasPrice (reaped host mp maxTxs ! j) \<ge> GasPrice (reaped host mp maxTxs ! i)"
        using s that(1) by (simp add: sorted_wrt_iff_nth_less)
      then show False using that(3) by simp
    next
      assume "j = i"
      then show False using that(3) by simp
    qed
  qed
  then show ?thesis using ReapMaxTxs_reaped by blast
qed




lemma full_pool_reaped: "map GasPrice (reaped pool_host full_pool 0) = [5, 3, 1]"
  by code_simp

end
